theory Spec2Isabelle
  imports Main
begin

section \<open>Platform services\<close>

text \<open>
  The scanner is TypeScript on Node.js. Strings are modelled as \<open>string\<close>, one \<open>char\<close> per
  code unit (code units above 255 are outside the model). What the code takes from the
  platform and from npm packages is collected in one record, a parameter of every function
  that uses it:
  \<^item> \<open>new_URL\<close>: the WHATWG \<open>URL\<close> constructor; \<open>None\<close> when it throws;
  \<^item> \<open>URL_resolve\<close>: the two-argument constructor \<open>new URL(href, base)\<close>;
  \<^item> \<open>md5_hex\<close>: \<open>crypto.createHash('md5').update(s).digest('hex')\<close>;
  \<^item> \<open>RegExp_test\<close>: \<open>new RegExp(pattern).test(s)\<close>; \<open>None\<close> when the pattern does
    not compile (the constructor throws);
  \<^item> \<open>URLSearchParams_toString\<close>: the serialisation of a list of query parameters;
  \<^item> \<open>parseString\<close>: xml2js's \<open>parseStringPromise\<close>; \<open>None\<close> when it rejects or
    resolves to no document at all (reading a field of it then throws).
\<close>

record URL =
  href :: string
  protocol :: string
  origin :: string
  hostname :: string
  pathname :: string
  searchParams :: "(string \<times> string) list"

text \<open>An entry of a parsed sitemap: the \<open>loc\<close> children (xml2js gives arrays; an absent
  child is the empty list) and the optional fields of a \<open>url\<close> entry.\<close>

record xml_entry =
  loc_elems :: "string list"
  lastmod_elems :: "string list"
  changefreq_elems :: "string list"
  priority_elems :: "string list"

text \<open>The parsed document as the code reads it: \<open>result.sitemapindex.sitemap\<close> and
  \<open>result.urlset.url\<close>. The outer \<open>None\<close> is a falsy/absent root key, the inner one an
  absent child array.\<close>

record xml_result =
  sitemapindex :: "xml_entry list option option"
  urlset :: "xml_entry list option option"

record platform =
  new_URL :: "string \<Rightarrow> URL option"
  URL_resolve :: "string \<Rightarrow> string \<Rightarrow> URL option"
  md5_hex :: "string \<Rightarrow> string"
  RegExp_test :: "string \<Rightarrow> string \<Rightarrow> bool option"
  URLSearchParams_toString :: "(string \<times> string) list \<Rightarrow> string"
  parseString :: "string \<Rightarrow> xml_result option"

section \<open>String primitives\<close>

definition is_digit :: "char \<Rightarrow> bool" where
  "is_digit c = (c \<in> set ''0123456789'')"

text \<open>The class \<open>[a-zA-Z0-9_-]\<close>.\<close>

definition is_id_char :: "char \<Rightarrow> bool" where
  "is_id_char c =
     (c \<in> set ''abcdefghijklmnopqrstuvwxyzABCDEFGHIJKLMNOPQRSTUVWXYZ0123456789_-'')"

text \<open>The class \<open>[a-f0-9]\<close> under the flag \<open>i\<close>.\<close>

definition is_hex :: "char \<Rightarrow> bool" where
  "is_hex c = (c \<in> set ''abcdefABCDEF0123456789'')"

text \<open>Line terminators (what \<open>.\<close> does not match) and the white space of \<open>\s\<close> and
  \<open>trim()\<close>, among the code units below 256: TAB, LF, VT, FF, CR, space, NBSP.\<close>

definition is_line_terminator :: "char \<Rightarrow> bool" where
  "is_line_terminator c = (c = CHR 0x0A \<or> c = CHR 0x0D)"

definition is_space :: "char \<Rightarrow> bool" where
  "is_space c =
     (c = CHR 0x09 \<or> c = CHR 0x0A \<or> c = CHR 0x0B \<or> c = CHR 0x0C \<or> c = CHR 0x0D
      \<or> c = CHR 0x20 \<or> c = CHR 0xA0)"

definition trim :: "string \<Rightarrow> string" where
  "trim s = rev (dropWhile is_space (rev (dropWhile is_space s)))"

text \<open>\<open>strip_prefix p s\<close>: the rest of \<open>s\<close> after the literal \<open>p\<close>, when \<open>s\<close> starts
  with it.\<close>

fun strip_prefix :: "string \<Rightarrow> string \<Rightarrow> string option" where
  "strip_prefix [] s = Some s"
| "strip_prefix (p # ps) [] = None"
| "strip_prefix (p # ps) (c # cs) = (if p = c then strip_prefix ps cs else None)"

text \<open>\<open>\d+\<close> at the start of \<open>s\<close>, greedy: the rest after the longest run of digits, which
  must not be empty.\<close>

definition digits1 :: "string \<Rightarrow> string option" where
  "digits1 s = (if takeWhile is_digit s = [] then None else Some (dropWhile is_digit s))"

text \<open>
  \<open>s.replace(/re/g, rep)\<close> for a pattern given by its matcher \<open>m\<close>: \<open>m t\<close> is the rest of
  \<open>t\<close> after the match of the pattern at the start of \<open>t\<close>, or \<open>None\<close>. The scan goes left
  to right, resumes after each match and copies unmatched characters. None of the
  patterns below matches the empty string, so a match always leaves a shorter rest; the
  test on the lengths only makes the recursion well-founded.
\<close>

fun replace_all :: "(string \<Rightarrow> string option) \<Rightarrow> string \<Rightarrow> string \<Rightarrow> string" where
  "replace_all m rep [] = []"
| "replace_all m rep (c # cs) =
     (case m (c # cs) of
        Some rest \<Rightarrow>
          (if length rest < length (c # cs) then rep @ replace_all m rep rest
           else c # replace_all m rep cs)
      | None \<Rightarrow> c # replace_all m rep cs)"

text \<open>\<open>xs.join(sep)\<close>.\<close>

fun join :: "string \<Rightarrow> string list \<Rightarrow> string" where
  "join sep [] = []"
| "join sep [x] = x"
| "join sep (x # y # ys) = x @ sep @ join sep (y # ys)"

text \<open>\<open>[...new Set(xs)]\<close>: the first occurrence of every element, in order.\<close>

fun uniq_acc :: "'a list \<Rightarrow> 'a list \<Rightarrow> 'a list" where
  "uniq_acc seen [] = []"
| "uniq_acc seen (x # xs) =
     (if x \<in> set seen then uniq_acc seen xs else x # uniq_acc (seen @ [x]) xs)"

definition uniq :: "'a list \<Rightarrow> 'a list" where
  "uniq xs = uniq_acc [] xs"

section \<open>Findings (types.ts)\<close>

datatype ViewportPreset = desktop | tablet | mobile

fun viewport_name :: "ViewportPreset \<Rightarrow> string" where
  "viewport_name desktop = ''desktop''"
| "viewport_name tablet = ''tablet''"
| "viewport_name mobile = ''mobile''"

datatype FindingCategory = accessibility | usability | spec
datatype Severity = critical | high | medium | low | info
datatype Confidence = certain | likely | needs_review

record FindingEvidence =
  selectors :: "string list"
  domSnippet :: "string option"
  screenshotPath :: "string option"

text \<open>The fields of \<open>Finding\<close> that the crawl frontier, the scheduler and the cluster engine
  read; the free-text fields the code only carries along are represented by \<open>title\<close> and
  \<open>description\<close>.\<close>

record Finding =
  finding_id :: string
  category :: FindingCategory
  severity :: Severity
  confidence :: Confidence
  pageUrl :: string
  viewport :: ViewportPreset
  title :: string
  description :: string
  evidence :: FindingEvidence
  tool :: "string option"
  ruleId :: "string option"

record ClusteredFinding = Finding +
  affectedPages :: "string list"
  occurrenceCount :: nat
  representativeUrl :: string

section \<open>Signature and cluster engine (utils/dedup.ts)\<close>

text \<open>The four patterns of the selector normalisation and the two of the path
  normalisation, as matchers.\<close>

definition match_nth_child :: "string \<Rightarrow> string option" where
  "match_nth_child s =
     Option.bind (Option.bind (strip_prefix '':nth-child('' s) digits1) (strip_prefix '')'')"

definition match_nth_of_type :: "string \<Rightarrow> string option" where
  "match_nth_of_type s =
     Option.bind (Option.bind (strip_prefix '':nth-of-type('' s) digits1) (strip_prefix '')'')"

text \<open>\<open>#[a-zA-Z0-9_-]*\d+[a-zA-Z0-9_-]*\<close>: after \<open>#\<close> the first star takes the whole run
  of class characters and backtracks to its last digit, the second star takes what
  follows that digit; so the match is \<open>#\<close> with the whole run, provided the run holds a
  digit.\<close>

definition match_dynamic_id :: "string \<Rightarrow> string option" where
  "match_dynamic_id s =
     (case strip_prefix ''#'' s of
        None \<Rightarrow> None
      | Some r \<Rightarrow>
          (if \<exists>c \<in> set (takeWhile is_id_char r). is_digit c
           then Some (dropWhile is_id_char r) else None))"

definition match_index :: "string \<Rightarrow> string option" where
  "match_index s =
     Option.bind (Option.bind (strip_prefix ''['' s) digits1) (strip_prefix '']'')"

definition match_numeric_segment :: "string \<Rightarrow> string option" where
  "match_numeric_segment s = Option.bind (strip_prefix ''/'' s) digits1"

text \<open>\<open>\/[a-f0-9]{8,}\<close> with the flag \<open>i\<close>.\<close>

definition match_hash_segment :: "string \<Rightarrow> string option" where
  "match_hash_segment s =
     (case strip_prefix ''/'' s of
        None \<Rightarrow> None
      | Some r \<Rightarrow>
          (if 8 \<le> length (takeWhile is_hex r) then Some (dropWhile is_hex r) else None))"

definition normalize_selector :: "string \<Rightarrow> string" where
  "normalize_selector s =
     trim
       (replace_all match_index ''[n]''
         (replace_all match_dynamic_id ''[dynamic-id]''
           (replace_all match_nth_of_type ''''
             (replace_all match_nth_child '''' s))))"

text \<open>\<open>a || b\<close> for a string \<open>a\<close> that may be \<open>undefined\<close>: both \<open>undefined\<close> and the empty
  string are falsy.\<close>

definition or_else :: "string option \<Rightarrow> string \<Rightarrow> string" where
  "or_else a b = (case a of None \<Rightarrow> b | Some s \<Rightarrow> if s = [] then b else s)"

text \<open>\<open>xs[0]\<close>: \<open>undefined\<close> on the empty array.\<close>

definition first :: "'a list \<Rightarrow> 'a option" where
  "first xs = (case xs of [] \<Rightarrow> None | x # _ \<Rightarrow> Some x)"

text \<open>\<open>finding.evidence.selectors[0]?.replace(...) ... .trim() || 'unknown'\<close>: an absent
  first selector short-circuits the whole chain to \<open>undefined\<close>.\<close>

definition normalizedSelector :: "'a Finding_scheme \<Rightarrow> string" where
  "normalizedSelector finding =
     or_else (map_option normalize_selector (first (selectors (evidence finding)))) ''unknown''"

definition extractUrlPattern :: "platform \<Rightarrow> string \<Rightarrow> string" where
  "extractUrlPattern P url =
     (case new_URL P url of
        None \<Rightarrow> url
      | Some parsed \<Rightarrow>
          hostname parsed @
          replace_all match_hash_segment ''/:hash''
            (replace_all match_numeric_segment ''/:id'' (pathname parsed)))"

text \<open>\<open>finding.ruleId || finding.tool || 'unknown'\<close>.\<close>

definition rule_key :: "'a Finding_scheme \<Rightarrow> string" where
  "rule_key finding = or_else (ruleId finding) (or_else (tool finding) ''unknown'')"

definition signatureBase :: "platform \<Rightarrow> 'a Finding_scheme \<Rightarrow> string" where
  "signatureBase P finding =
     join ''|''
       [rule_key finding, normalizedSelector finding, viewport_name (viewport finding),
        extractUrlPattern P (pageUrl finding)]"

definition generateSignature :: "platform \<Rightarrow> 'a Finding_scheme \<Rightarrow> string" where
  "generateSignature P finding = md5_hex P (signatureBase P finding)"

text \<open>The \<open>Map<string, Finding[]>\<close> of the grouping loop keeps its keys in insertion
  order: an association list, where \<open>set\<close> on a present key replaces the value in place
  and on a new key appends.\<close>

fun map_set :: "('k \<times> 'v) list \<Rightarrow> 'k \<Rightarrow> 'v \<Rightarrow> ('k \<times> 'v) list" where
  "map_set [] k v = [(k, v)]"
| "map_set ((k', v') # m) k v = (if k' = k then (k, v) # m else (k', v') # map_set m k v)"

definition add_to_clusters ::
  "platform \<Rightarrow> (string \<times> Finding list) list \<Rightarrow> Finding \<Rightarrow> (string \<times> Finding list) list"
where
  "add_to_clusters P clusters finding =
     (let signature = generateSignature P finding;
          existing = (case map_of clusters signature of Some g \<Rightarrow> g | None \<Rightarrow> [])
      in map_set clusters signature (existing @ [finding]))"

definition group_by_signature :: "platform \<Rightarrow> Finding list \<Rightarrow> (string \<times> Finding list) list"
where
  "group_by_signature P findings = foldl (add_to_clusters P) [] findings"

text \<open>One cluster: the representative's fields, its id prefixed, and the three derived
  fields. The grouping loop never stores an empty group; for the empty list (where
  \<open>group[0]\<close> would be \<open>undefined\<close>) the model returns \<open>None\<close>.\<close>

definition make_cluster :: "Finding list \<Rightarrow> ClusteredFinding option" where
  "make_cluster grp =
     (case grp of
        [] \<Rightarrow> None
      | representative # _ \<Rightarrow>
          Some ((Finding.extend representative
                  (ClusteredFinding.fields
                     (uniq (map pageUrl grp))
                     (length grp)
                     (pageUrl representative)))
                \<lparr>finding_id := ''clustered-'' @ finding_id representative\<rparr>))"

fun severityOrder :: "Severity \<Rightarrow> int" where
  "severityOrder critical = 0"
| "severityOrder high = 1"
| "severityOrder medium = 2"
| "severityOrder low = 3"
| "severityOrder info = 4"

text \<open>The comparator of the final sort.\<close>

definition compare_clusters :: "ClusteredFinding \<Rightarrow> ClusteredFinding \<Rightarrow> int" where
  "compare_clusters a b =
     (let severityDiff = severityOrder (severity a) - severityOrder (severity b)
      in if severityDiff \<noteq> 0 then severityDiff
         else int (occurrenceCount b) - int (occurrenceCount a))"

text \<open>\<open>Array.prototype.sort\<close> is stable; for a comparator that is a total preorder its
  result is the stable sorted arrangement, computed here by insertion.\<close>

fun insert_by :: "('a \<Rightarrow> 'a \<Rightarrow> int) \<Rightarrow> 'a \<Rightarrow> 'a list \<Rightarrow> 'a list" where
  "insert_by cmp x [] = [x]"
| "insert_by cmp x (y # ys) = (if cmp x y \<le> 0 then x # y # ys else y # insert_by cmp x ys)"

definition sort_by :: "('a \<Rightarrow> 'a \<Rightarrow> int) \<Rightarrow> 'a list \<Rightarrow> 'a list" where
  "sort_by cmp xs = foldr (insert_by cmp) xs []"

definition deduplicateFindings :: "platform \<Rightarrow> Finding list \<Rightarrow> ClusteredFinding list" where
  "deduplicateFindings P findings =
     sort_by compare_clusters
       (List.map_filter (\<lambda>(signature, grp). make_cluster grp)
          (group_by_signature P findings))"

section \<open>More string primitives\<close>

definition starts_with :: "string \<Rightarrow> string \<Rightarrow> bool" where
  "starts_with s p = (take (length p) s = p)"

definition ends_with :: "string \<Rightarrow> string \<Rightarrow> bool" where
  "ends_with s p = (length p \<le> length s \<and> drop (length s - length p) s = p)"

fun str_includes :: "string \<Rightarrow> string \<Rightarrow> bool" where
  "str_includes [] sub = (sub = [])"
| "str_includes (c # cs) sub = (starts_with (c # cs) sub \<or> str_includes cs sub)"

text \<open>\<open>toLowerCase()\<close> on the letters A to Z.\<close>

definition to_lower :: "char \<Rightarrow> char" where
  "to_lower c =
     (case map_of (zip ''ABCDEFGHIJKLMNOPQRSTUVWXYZ'' ''abcdefghijklmnopqrstuvwxyz'') c of
        Some l \<Rightarrow> l
      | None \<Rightarrow> c)"

definition toLowerCase :: "string \<Rightarrow> string" where
  "toLowerCase s = map to_lower s"

text \<open>\<open>text.split('\n')\<close>.\<close>

fun split_lines :: "string \<Rightarrow> string list" where
  "split_lines [] = [[]]"
| "split_lines (c # cs) =
     (if c = CHR 0x0A then [] # split_lines cs
      else (case split_lines cs of l # ls \<Rightarrow> (c # l) # ls | [] \<Rightarrow> [[c]]))"

text \<open>A literal matched without regard to case (a pattern under the flag \<open>i\<close>).\<close>

fun strip_prefix_ci :: "string \<Rightarrow> string \<Rightarrow> string option" where
  "strip_prefix_ci [] s = Some s"
| "strip_prefix_ci (p # ps) [] = None"
| "strip_prefix_ci (p # ps) (c # cs) =
     (if to_lower p = to_lower c then strip_prefix_ci ps cs else None)"

text \<open>\<open>s.replace(/re/, rep)\<close> without the flag \<open>g\<close>: the first match only.\<close>

fun replace_first :: "(string \<Rightarrow> string option) \<Rightarrow> string \<Rightarrow> string \<Rightarrow> string" where
  "replace_first m rep [] = []"
| "replace_first m rep (c # cs) =
     (case m (c # cs) of Some rest \<Rightarrow> rep @ rest | None \<Rightarrow> c # replace_first m rep cs)"

text \<open>The order of strings by code units, as \<open>URLSearchParams.sort()\<close> compares names.\<close>

fun str_le :: "string \<Rightarrow> string \<Rightarrow> bool" where
  "str_le [] t = True"
| "str_le (c # cs) [] = False"
| "str_le (c # cs) (d # ds) =
     ((of_char c :: nat) < of_char d \<or> (c = d \<and> str_le cs ds))"

definition compare_names :: "string \<times> string \<Rightarrow> string \<times> string \<Rightarrow> int" where
  "compare_names a b = (if fst a = fst b then 0 else if str_le (fst a) (fst b) then - 1 else 1)"

section \<open>BFS crawler (crawlers/bfs.ts)\<close>

text \<open>The options after the constructor has filled in its defaults. The optional lists
  are tested as \<open>xs && xs.length > 0\<close> everywhere, so an absent list and the empty list
  behave alike and both are \<open>[]\<close> here; an optional flag is read by its truthiness.
  \<open>maxPages\<close> and \<open>maxDepth\<close> are counts.\<close>

record BfsCrawlerOptions =
  maxPages :: nat
  maxDepth :: nat
  allowDomains :: "string list"
  denyPatterns :: "string list"
  respectRobotsTxt :: bool
  sameDomainOnly :: bool

record CrawlQueueItem =
  url :: string
  depth :: nat
  referrer :: "string option"

text \<open>The site as the crawler sees it. \<open>fetch_robots origin\<close> is the outcome of
  \<open>fetch(origin + '/robots.txt')\<close>: \<open>None\<close> when it throws, else \<open>response.ok\<close> and the
  body. \<open>load_page u\<close> is the outcome of \<open>page.goto(u)\<close> followed by the script evaluated
  in the page: \<open>None\<close> when either throws, else \<open>window.location.href\<close> and the \<open>href\<close>
  attribute of every \<open>a[href]\<close> element, in document order.\<close>

record loaded_page =
  location :: string
  anchors :: "string list"

record site =
  fetch_robots :: "string \<Rightarrow> (bool \<times> string) option"
  load_page :: "string \<Rightarrow> loaded_page option"

text \<open>The crawler's instance state and the locals of \<open>crawl\<close>. \<open>visits\<close> logs the calls
  \<open>onPageVisited(url, depth)\<close>: the depth at which each page was discovered.\<close>

record crawl_state =
  queue :: "CrawlQueueItem list"
  visited :: "string list"
  disallowedPaths :: "string list"
  discoveredUrls :: "string list"
  visits :: "(string \<times> nat) list"

definition trackingParams :: "string list" where
  "trackingParams = [''utm_source'', ''utm_medium'', ''utm_campaign'', ''ref'', ''fbclid'']"

definition normalizeUrl :: "platform \<Rightarrow> string \<Rightarrow> string" where
  "normalizeUrl P u =
     (case new_URL P u of
        None \<Rightarrow> u
      | Some parsed \<Rightarrow>
          (let path = (if ends_with (pathname parsed) ''/'' \<and> 1 < length (pathname parsed)
                       then butlast (pathname parsed) else pathname parsed);
               params = sort_by compare_names
                          (filter (\<lambda>kv. fst kv \<notin> set trackingParams) (searchParams parsed));
               search = (if params = [] then [] else ''?'' @ URLSearchParams_toString P params)
           in origin parsed @ path @ search))"

text \<open>The test shared by \<open>isAllowed\<close>, \<open>extractLinks\<close> and the sitemap filter:
  \<open>new RegExp(pattern).test(url)\<close>, and \<open>url.includes(pattern)\<close> when the pattern does not
  compile.\<close>

definition pattern_matches :: "platform \<Rightarrow> string \<Rightarrow> string \<Rightarrow> bool" where
  "pattern_matches P u pattern =
     (case RegExp_test P pattern u of Some b \<Rightarrow> b | None \<Rightarrow> str_includes u pattern)"

definition domain_matches :: "string \<Rightarrow> string \<Rightarrow> bool" where
  "domain_matches host domain = (host = domain \<or> ends_with host (''.'' @ domain))"

definition isDisallowed :: "platform \<Rightarrow> string list \<Rightarrow> string \<Rightarrow> bool" where
  "isDisallowed P disallowed u =
     (case new_URL P u of
        None \<Rightarrow> False
      | Some parsed \<Rightarrow>
          (\<exists>d \<in> set disallowed.
             if ends_with d ''*'' then starts_with (pathname parsed) (butlast d)
             else starts_with (pathname parsed) d))"

text \<open>\<open>isAllowed\<close> returns from the allowed-domains test when that list is not empty; the
  deny patterns are consulted only when it is.\<close>

definition isAllowed :: "platform \<Rightarrow> BfsCrawlerOptions \<Rightarrow> string \<Rightarrow> string \<Rightarrow> bool" where
  "isAllowed P opts u baseDomain =
     (case new_URL P u of
        None \<Rightarrow> False
      | Some parsed \<Rightarrow>
          if sameDomainOnly opts \<and> hostname parsed \<noteq> baseDomain then False
          else if allowDomains opts \<noteq> []
            then (\<exists>d \<in> set (allowDomains opts). domain_matches (hostname parsed) d)
          else if denyPatterns opts \<noteq> []
            then \<not> (\<exists>p \<in> set (denyPatterns opts). pattern_matches P u p)
          else True)"

text \<open>The script \<open>extractLinks\<close> evaluates in the page, then its filter.\<close>

definition page_links :: "platform \<Rightarrow> loaded_page \<Rightarrow> string list" where
  "page_links P pg =
     concat (map (\<lambda>h.
       if h = [] then []
       else if starts_with h ''mailto:'' \<or> starts_with h ''tel:''
               \<or> starts_with h ''javascript:'' \<or> starts_with h ''#'' then []
       else (case URL_resolve P h (location pg) of
               None \<Rightarrow> []
             | Some resolved \<Rightarrow>
                 if protocol resolved \<noteq> ''http:'' \<and> protocol resolved \<noteq> ''https:'' then []
                 else [href resolved])) (anchors pg))"

definition link_kept :: "platform \<Rightarrow> BfsCrawlerOptions \<Rightarrow> string \<Rightarrow> string \<Rightarrow> bool" where
  "link_kept P opts baseDomain u =
     (case new_URL P u of
        None \<Rightarrow> False
      | Some parsed \<Rightarrow>
          if sameDomainOnly opts \<and> hostname parsed \<noteq> baseDomain then False
          else if allowDomains opts \<noteq> []
                  \<and> \<not> (\<exists>d \<in> set (allowDomains opts). domain_matches (hostname parsed) d)
            then False
          else if denyPatterns opts \<noteq> []
                  \<and> (\<exists>p \<in> set (denyPatterns opts). pattern_matches P u p)
            then False
          else True)"

definition extractLinks ::
  "platform \<Rightarrow> BfsCrawlerOptions \<Rightarrow> loaded_page \<Rightarrow> string \<Rightarrow> string list" where
  "extractLinks P opts pg baseDomain = filter (link_kept P opts baseDomain) (page_links P pg)"

text \<open>One line of robots.txt: the state is \<open>appliesToUs\<close> and the set of disallowed
  paths (\<open>Set.add\<close> keeps the first insertion).\<close>

definition robots_line :: "bool \<times> string list \<Rightarrow> string \<Rightarrow> bool \<times> string list" where
  "robots_line st line =
     (let trimmed = toLowerCase (trim line);
          appliesToUs =
            (if starts_with trimmed ''user-agent:''
             then (let agent = trim (replace_first (strip_prefix ''user-agent:'') [] trimmed)
                   in agent = ''*'' \<or> str_includes agent ''bot'')
             else fst st)
      in if appliesToUs \<and> starts_with trimmed ''disallow:''
         then (let path = trim (replace_first (strip_prefix_ci ''disallow:'') [] line)
               in if path \<noteq> [] \<and> path \<notin> set (snd st) then (appliesToUs, snd st @ [path])
                  else (appliesToUs, snd st))
         else (appliesToUs, snd st))"

definition fetchRobotsTxt :: "site \<Rightarrow> string \<Rightarrow> string list \<Rightarrow> string list" where
  "fetchRobotsTxt W org disallowed =
     (case fetch_robots W org of
        None \<Rightarrow> disallowed
      | Some (ok, body) \<Rightarrow>
          if \<not> ok then disallowed
          else snd (foldl robots_line (False, disallowed) (split_lines body)))"

text \<open>One iteration of the \<open>while\<close> loop of \<open>crawl\<close>, entered with a non-empty queue. The
  flag is \<open>True\<close> when the iteration leaves the loop by \<open>break\<close>.\<close>

definition crawl_iteration ::
  "platform \<Rightarrow> site \<Rightarrow> BfsCrawlerOptions \<Rightarrow> string \<Rightarrow> crawl_state \<Rightarrow> bool \<times> crawl_state"
where
  "crawl_iteration P W opts startDomain st =
     (let item = hd (queue st);
          st0 = st\<lparr>queue := tl (queue st)\<rparr>;
          normalizedUrl = normalizeUrl P (url item)
      in if normalizedUrl \<in> set (visited st0) then (False, st0)
         else if maxDepth opts < depth item then (False, st0)
         else if isDisallowed P (disallowedPaths st0) (url item) then (False, st0)
         else if \<not> isAllowed P opts (url item) startDomain then (False, st0)
         else
           (let st1 = st0\<lparr>visited := visited st0 @ [normalizedUrl],
                          discoveredUrls := discoveredUrls st0 @ [url item],
                          visits := visits st0 @ [(url item, depth item)]\<rparr>
            in if maxPages opts \<le> length (discoveredUrls st1) then (True, st1)
               else if maxDepth opts \<le> depth item then (False, st1)
               else (case load_page W (url item) of
                       None \<Rightarrow> (False, st1)
                     | Some pg \<Rightarrow>
                         (False,
                          st1\<lparr>queue := queue st1 @
                            map (\<lambda>link. \<lparr>url = link, depth = depth item + 1,
                                         referrer = Some (url item)\<rparr>)
                              (filter (\<lambda>link. normalizeUrl P link \<notin> set (visited st1))
                                 (extractLinks P opts pg startDomain))\<rparr>))))"

function crawl_loop ::
  "platform \<Rightarrow> site \<Rightarrow> BfsCrawlerOptions \<Rightarrow> string \<Rightarrow> crawl_state \<Rightarrow> crawl_state"
where
  "crawl_loop P W opts startDomain st =
     (if queue st \<noteq> [] \<and> length (discoveredUrls st) < maxPages opts
      then (case crawl_iteration P W opts startDomain st of
              (stop, st') \<Rightarrow> if stop then st' else crawl_loop P W opts startDomain st')
      else st)"
  by pat_completeness auto
termination
  apply (relation "measures [\<lambda>(P, W, opts, d, st). maxPages opts - length (discoveredUrls st),
                            \<lambda>(P, W, opts, d, st). length (queue st)]")
   apply simp
  subgoal for P W opts startDomain st stop st'
    apply (subgoal_tac "(length (discoveredUrls st') = Suc (length (discoveredUrls st)))
        \<or> (discoveredUrls st' = discoveredUrls st \<and> length (queue st') < length (queue st))")
     apply auto[1]
    apply (auto simp: crawl_iteration_def Let_def split: if_splits option.splits)
    done
  done

datatype crawl_error = InvalidURL

text \<open>\<open>BfsCrawler.crawl\<close> on a crawler whose instance state is \<open>visited0\<close> and
  \<open>disallowed0\<close>. \<open>crawl_run\<close> gives the state at the \<open>return\<close>, or the \<open>TypeError\<close> of
  \<open>new URL(startUrl)\<close>; \<open>BfsCrawler_crawl\<close> is the returned list.\<close>

definition crawl_run ::
  "platform \<Rightarrow> site \<Rightarrow> BfsCrawlerOptions \<Rightarrow> string list \<Rightarrow> string list \<Rightarrow> string
     \<Rightarrow> crawl_error + crawl_state"
where
  "crawl_run P W opts visited0 disallowed0 startUrl =
     (case new_URL P startUrl of
        None \<Rightarrow> Inl InvalidURL
      | Some startParsed \<Rightarrow>
          Inr (crawl_loop P W opts (hostname startParsed)
                 \<lparr>queue = [\<lparr>url = startUrl, depth = 0, referrer = None\<rparr>],
                  visited = visited0,
                  disallowedPaths =
                    (if respectRobotsTxt opts
                     then fetchRobotsTxt W (origin startParsed) disallowed0 else disallowed0),
                  discoveredUrls = [],
                  visits = []\<rparr>))"

definition BfsCrawler_crawl ::
  "platform \<Rightarrow> site \<Rightarrow> BfsCrawlerOptions \<Rightarrow> string list \<Rightarrow> string list \<Rightarrow> string
     \<Rightarrow> crawl_error + string list"
where
  "BfsCrawler_crawl P W opts visited0 disallowed0 startUrl =
     map_sum id discoveredUrls (crawl_run P W opts visited0 disallowed0 startUrl)"

declare crawl_loop.simps [simp del]

section \<open>Sitemap discovery (crawlers/sitemap.ts)\<close>

text \<open>The options after the constructor: \<open>maxUrls\<close> is a count, and \<open>0\<close> also stands for
  an explicitly \<open>undefined\<close> value, which the code treats alike (both are falsy).\<close>

record SitemapOptions =
  maxUrls :: nat
  allowDomains :: "string list"
  denyPatterns :: "string list"
  includeImages :: bool

record SitemapUrl =
  loc :: string
  lastmod :: "string option"
  changefreq :: "string option"
  priority :: "string option"

text \<open>What \<open>protocol.get(url, {timeout}, callback)\<close> leads to: a response with its status
  code, \<open>Location\<close> header and body (\<open>None\<close> when the response stream emits \<open>error\<close>), the
  request's \<open>error\<close> event (also a \<open>get\<close> that throws), or its \<open>timeout\<close> event.\<close>

datatype http_result =
    Response nat "string option" "string option"
  | RequestError
  | RequestTimeout

record network =
  https_get :: "string \<Rightarrow> nat \<Rightarrow> http_result"
  http_get :: "string \<Rightarrow> nat \<Rightarrow> http_result"

datatype fetch_error = HttpStatus nat | RequestFailed | RequestTimedOut | ResponseFailed

text \<open>\<open>protocol.get(url, { timeout: 10000 }, ...)\<close>, on the module chosen by the prefix of
  the URL.\<close>

definition protocol_get :: "network \<Rightarrow> string \<Rightarrow> http_result" where
  "protocol_get N u = (if starts_with u ''https'' then https_get N else http_get N) u 10000"

text \<open>\<open>fetchUrl\<close> calls itself on every 301/302 response that has a \<open>Location\<close> header.
  The recursion has no bound in the code; the first argument bounds the number of
  nested calls, and \<open>None\<close> says that this bound was too small.\<close>

fun fetchUrl :: "nat \<Rightarrow> network \<Rightarrow> string \<Rightarrow> (fetch_error + string) option" where
  "fetchUrl 0 N u = None"
| "fetchUrl (Suc n) N u =
     (case protocol_get N u of
        Response statusCode location_header body \<Rightarrow>
          (if (statusCode = 301 \<or> statusCode = 302) \<and> or_else location_header [] \<noteq> []
           then fetchUrl n N (or_else location_header [])
           else if statusCode \<noteq> 200 then Some (Inl (HttpStatus statusCode))
           else (case body of None \<Rightarrow> Some (Inl ResponseFailed) | Some data \<Rightarrow> Some (Inr data)))
      | RequestError \<Rightarrow> Some (Inl RequestFailed)
      | RequestTimeout \<Rightarrow> Some (Inl RequestTimedOut))"

definition url_allowed :: "platform \<Rightarrow> SitemapOptions \<Rightarrow> string \<Rightarrow> bool" where
  "url_allowed P opts u =
     (case new_URL P u of
        None \<Rightarrow> False
      | Some parsed \<Rightarrow> (\<exists>d \<in> set (allowDomains opts). domain_matches (hostname parsed) d))"

definition url_denied :: "platform \<Rightarrow> SitemapOptions \<Rightarrow> string \<Rightarrow> bool" where
  "url_denied P opts u = (\<exists>p \<in> set (denyPatterns opts). pattern_matches P u p)"

definition filterUrls :: "platform \<Rightarrow> SitemapOptions \<Rightarrow> SitemapUrl list \<Rightarrow> string list" where
  "filterUrls P opts urls =
     (let filtered1 = map loc urls;
          filtered2 = (if allowDomains opts \<noteq> [] then filter (url_allowed P opts) filtered1
                       else filtered1);
          filtered3 = (if denyPatterns opts \<noteq> []
                       then filter (\<lambda>u. \<not> url_denied P opts u) filtered2 else filtered2);
          filtered4 = (if maxUrls opts \<noteq> 0 \<and> maxUrls opts < length filtered3
                       then take (maxUrls opts) filtered3 else filtered3)
      in uniq filtered4)"

text \<open>\<open>this.options.maxUrls || 100\<close>.\<close>

definition maxUrls_or_100 :: "SitemapOptions \<Rightarrow> nat" where
  "maxUrls_or_100 opts = (if maxUrls opts = 0 then 100 else maxUrls opts)"

text \<open>\<open>xs.slice(0, e)\<close>: a negative end counts from the end of the array.\<close>

definition slice0 :: "'a list \<Rightarrow> int \<Rightarrow> 'a list" where
  "slice0 xs e = (if e < 0 then take (nat (int (length xs) + e)) xs else take (nat e) xs)"

definition child_url :: "string \<Rightarrow> SitemapUrl" where
  "child_url l = \<lparr>loc = l, lastmod = None, changefreq = None, priority = None\<rparr>"

definition url_entry :: "xml_entry \<Rightarrow> SitemapUrl" where
  "url_entry e =
     \<lparr>loc = hd (loc_elems e), lastmod = first (lastmod_elems e),
      changefreq = first (changefreq_elems e), priority = first (priority_elems e)\<rparr>"

text \<open>\<open>entry.loc && entry.loc[0]\<close>.\<close>

definition has_loc :: "xml_entry \<Rightarrow> bool" where
  "has_loc e = (or_else (first (loc_elems e)) [] \<noteq> [])"

text \<open>
  \<open>crawl\<close>, \<open>parseSitemap\<close> and the loop over the child sitemaps of an index call each
  other, and an index may list itself: the first argument bounds the nesting of \<open>crawl\<close>
  calls (and the redirects of each fetch), \<open>None\<close> says that the bound was too small.
  Every exception inside \<open>crawl\<close> ends in its \<open>catch\<close>, which returns the empty list; a
  document that does not parse ends in the \<open>catch\<close> of \<open>parseSitemap\<close>, which returns
  what it has, nothing.
\<close>

fun SitemapCrawler_crawl ::
      "nat \<Rightarrow> platform \<Rightarrow> network \<Rightarrow> SitemapOptions \<Rightarrow> string \<Rightarrow> string list option"
  and parseSitemap ::
      "nat \<Rightarrow> platform \<Rightarrow> network \<Rightarrow> SitemapOptions \<Rightarrow> string \<Rightarrow> SitemapUrl list option"
  and index_loop ::
      "nat \<Rightarrow> platform \<Rightarrow> network \<Rightarrow> SitemapOptions \<Rightarrow> xml_entry list \<Rightarrow> SitemapUrl list
         \<Rightarrow> SitemapUrl list option"
where
  "SitemapCrawler_crawl 0 P N opts sitemapUrl = None"
| "SitemapCrawler_crawl (Suc n) P N opts sitemapUrl =
     (case fetchUrl n N sitemapUrl of
        None \<Rightarrow> None
      | Some (Inl e) \<Rightarrow> Some []
      | Some (Inr content) \<Rightarrow>
          (case parseSitemap n P N opts content of
             None \<Rightarrow> None
           | Some urls \<Rightarrow> Some (filterUrls P opts urls)))"
| "parseSitemap n P N opts content =
     (case parseString P content of
        None \<Rightarrow> Some []
      | Some result \<Rightarrow>
          (case (case sitemapindex result of
                   None \<Rightarrow> Some []
                 | Some sitemaps \<Rightarrow>
                     index_loop n P N opts (case sitemaps of None \<Rightarrow> [] | Some xs \<Rightarrow> xs) []) of
             None \<Rightarrow> None
           | Some urls \<Rightarrow>
               (case urlset result of
                  None \<Rightarrow> Some urls
                | Some urlEntries \<Rightarrow>
                    Some (urls @ map url_entry
                            (filter has_loc
                               (case urlEntries of None \<Rightarrow> [] | Some xs \<Rightarrow> xs))))))"
| "index_loop n P N opts [] urls = Some urls"
| "index_loop n P N opts (sitemap # rest) urls =
     (if has_loc sitemap
      then (case SitemapCrawler_crawl n P N opts (hd (loc_elems sitemap)) of
              None \<Rightarrow> None
            | Some childUrls \<Rightarrow>
                if maxUrls_or_100 opts \<le> length urls + length childUrls
                then Some (urls @ map child_url
                             (slice0 childUrls (int (maxUrls_or_100 opts) - int (length urls))))
                else index_loop n P N opts rest (urls @ map child_url childUrls))
      else index_loop n P N opts rest urls)"

text \<open>\<open>robotsContent.match(/Sitemap:\s*(.+)/i)\<close>, the capture group of the match at the
  start of \<open>s\<close>. After the literal, \<open>\s*\<close> takes the whole run of white space; when a
  character follows, it is not a line terminator and the group runs from it to the end of
  its line. When nothing follows, \<open>\s*\<close> gives characters back until the one after it is
  not a line terminator: the group is then the last such character of the run.\<close>

definition sitemap_directive :: "string \<Rightarrow> string option" where
  "sitemap_directive s =
     (case strip_prefix_ci ''sitemap:'' s of
        None \<Rightarrow> None
      | Some r \<Rightarrow>
          (let ws = takeWhile is_space r; r' = dropWhile is_space r
           in if r' \<noteq> [] then Some (takeWhile (\<lambda>c. \<not> is_line_terminator c) r')
              else (case rev (filter (\<lambda>c. \<not> is_line_terminator c) ws) of
                      [] \<Rightarrow> None
                    | c # _ \<Rightarrow> Some [c])))"

text \<open>The leftmost match of a pattern in a string.\<close>

fun find_match :: "(string \<Rightarrow> 'a option) \<Rightarrow> string \<Rightarrow> 'a option" where
  "find_match m [] = m []"
| "find_match m (c # cs) = (case m (c # cs) of Some g \<Rightarrow> Some g | None \<Rightarrow> find_match m cs)"

definition commonLocations :: "string list" where
  "commonLocations =
     [''/sitemap.xml'', ''/sitemap_index.xml'', ''/sitemap/sitemap.xml'',
      ''/sitemaps/sitemap.xml'']"

text \<open>The loop of \<open>discover\<close> over the common locations: the URLs of the first location
  that yields any (\<open>Some (Some urls)\<close>), or \<open>Some None\<close> when the loop runs out.\<close>

fun try_locations ::
  "nat \<Rightarrow> platform \<Rightarrow> network \<Rightarrow> SitemapOptions \<Rightarrow> string \<Rightarrow> string list
     \<Rightarrow> string list option option"
where
  "try_locations n P N opts org [] = Some None"
| "try_locations n P N opts org (l # ls) =
     (case SitemapCrawler_crawl n P N opts (org @ l) of
        None \<Rightarrow> None
      | Some urls \<Rightarrow>
          if urls \<noteq> [] then Some (Some urls) else try_locations n P N opts org ls)"

datatype discover_error = InvalidBaseUrl

text \<open>\<open>discover\<close>: \<open>Inl\<close> is the exception it throws (\<open>new URL(baseUrl)\<close> stands outside
  every \<open>try\<close>), \<open>Inr\<close> the list it returns.\<close>

definition discover ::
  "nat \<Rightarrow> platform \<Rightarrow> network \<Rightarrow> SitemapOptions \<Rightarrow> string
     \<Rightarrow> (discover_error + string list) option"
where
  "discover n P N opts baseUrl =
     (case new_URL P baseUrl of
        None \<Rightarrow> Some (Inl InvalidBaseUrl)
      | Some parsedBase \<Rightarrow>
          (case try_locations n P N opts (origin parsedBase) commonLocations of
             None \<Rightarrow> None
           | Some (Some urls) \<Rightarrow> Some (Inr urls)
           | Some None \<Rightarrow>
               (case fetchUrl n N (origin parsedBase @ ''/robots.txt'') of
                  None \<Rightarrow> None
                | Some (Inl e) \<Rightarrow> Some (Inr [baseUrl])
                | Some (Inr robotsContent) \<Rightarrow>
                    (case find_match sitemap_directive robotsContent of
                       Some sitemapMatch \<Rightarrow>
                         map_option Inr (SitemapCrawler_crawl n P N opts (trim sitemapMatch))
                     | None \<Rightarrow> Some (Inr [baseUrl])))))"

section \<open>Scan scheduler (scanner.ts)\<close>

text \<open>An awaited call either returns or throws; of a thrown value the code keeps
  \<open>e instanceof Error ? e.message : String(e)\<close>, a string.\<close>

datatype 'a outcome = Returns 'a | Throws string

fun run_steps :: "('s \<Rightarrow> unit outcome) \<Rightarrow> 's list \<Rightarrow> unit outcome" where
  "run_steps f [] = Returns ()"
| "run_steps f (x # xs) = (case f x of Throws e \<Rightarrow> Throws e | Returns _ \<Rightarrow> run_steps f xs)"

record ViewportConfig =
  name :: ViewportPreset
  width :: nat
  height :: nat

fun VIEWPORT_PRESETS :: "ViewportPreset \<Rightarrow> ViewportConfig" where
  "VIEWPORT_PRESETS desktop = \<lparr>name = desktop, width = 1920, height = 1080\<rparr>"
| "VIEWPORT_PRESETS tablet = \<lparr>name = tablet, width = 768, height = 1024\<rparr>"
| "VIEWPORT_PRESETS mobile = \<lparr>name = mobile, width = 375, height = 812\<rparr>"

text \<open>A login or interaction step, with the fields \<open>executeLoginStep\<close> and
  \<open>executeInteraction\<close> read (all but the action optional; the scroll coordinates are a
  pair here).\<close>

record step =
  step_action :: string
  step_url :: "string option"
  step_selector :: "string option"
  step_value :: "string option"
  step_key :: "string option"
  step_duration :: "nat option"
  step_xy :: "(int \<times> int) option"

record AuthConfig =
  cookies :: "string list option"
  headers :: "(string \<times> string) list option"
  loginSteps :: "step list option"

record ScanInput =
  auth :: "AuthConfig option"
  interactionPlan :: "step list option"
  viewports :: "ViewportPreset list option"

record ScannerOptions =
  concurrency :: nat
  verbose :: bool

text \<open>The operations on the page and its context that a job performs.\<close>

datatype page_op =
    AddCookies
  | SetExtraHTTPHeaders
  | Goto string
  | Fill string string
  | Click string
  | WaitForLoadState
  | WaitForSelector string
  | Hover string
  | ScrollTo int int
  | ScrollIntoView string
  | WaitForTimeout nat
  | Press string

text \<open>What the browser and the analyzers do for one job: the outcome of creating the
  context and the page, of each page operation, of \<open>waitForStability\<close>, of the full-page
  screenshot, of the three analyzers awaited together (\<open>Promise.all\<close>: their findings, or
  the rejection that wins), of an element screenshot (which catches its own errors and
  then returns \<open>undefined\<close>), and of closing the context.\<close>

record session =
  newContext :: "unit outcome"
  newPage :: "unit outcome"
  perform :: "page_op \<Rightarrow> unit outcome"
  waitForStability :: "unit outcome"
  captureFullPage :: "string outcome"
  analyze :: "(Finding list \<times> Finding list \<times> Finding list) outcome"
  captureElement :: "string \<Rightarrow> string \<Rightarrow> string option"
  closeContext :: "unit outcome"

text \<open>\<open>step.value.replace(/\$\{(\w+)\}/g, ...)\<close> reads the process environment; the value
  typed is given by \<open>expand\<close>.\<close>

definition executeLoginStep :: "(string \<Rightarrow> string) \<Rightarrow> session \<Rightarrow> step \<Rightarrow> unit outcome" where
  "executeLoginStep expand S st =
     (if step_action st = ''navigate''
        then (if or_else (step_url st) [] \<noteq> [] then perform S (Goto (or_else (step_url st) []))
              else Returns ())
      else if step_action st = ''type''
        then (if or_else (step_selector st) [] \<noteq> [] \<and> or_else (step_value st) [] \<noteq> []
              then perform S (Fill (or_else (step_selector st) [])
                                (expand (or_else (step_value st) [])))
              else Returns ())
      else if step_action st = ''click''
        then (if or_else (step_selector st) [] \<noteq> []
              then perform S (Click (or_else (step_selector st) [])) else Returns ())
      else if step_action st = ''waitForNavigation'' then perform S WaitForLoadState
      else if step_action st = ''waitForSelector''
        then (if or_else (step_selector st) [] \<noteq> []
              then perform S (WaitForSelector (or_else (step_selector st) [])) else Returns ())
      else Returns ())"

definition executeInteraction :: "session \<Rightarrow> step \<Rightarrow> unit outcome" where
  "executeInteraction S st =
     (if step_action st = ''click''
        then (if or_else (step_selector st) [] \<noteq> []
              then (case perform S (Click (or_else (step_selector st) [])) of
                      Throws e \<Rightarrow> Throws e
                    | Returns _ \<Rightarrow> perform S (WaitForTimeout 300))
              else Returns ())
      else if step_action st = ''type''
        then (if or_else (step_selector st) [] \<noteq> [] \<and> or_else (step_value st) [] \<noteq> []
              then perform S (Fill (or_else (step_selector st) []) (or_else (step_value st) []))
              else Returns ())
      else if step_action st = ''hover''
        then (if or_else (step_selector st) [] \<noteq> []
              then perform S (Hover (or_else (step_selector st) [])) else Returns ())
      else if step_action st = ''scroll''
        then (case step_xy st of
                Some (x, y) \<Rightarrow> perform S (ScrollTo x y)
              | None \<Rightarrow>
                  if or_else (step_selector st) [] \<noteq> []
                  then perform S (ScrollIntoView (or_else (step_selector st) []))
                  else Returns ())
      else if step_action st = ''wait''
        then perform S (WaitForTimeout
                          (case step_duration st of None \<Rightarrow> 1000
                           | Some d \<Rightarrow> if d = 0 then 1000 else d))
      else if step_action st = ''press''
        then (if or_else (step_key st) [] \<noteq> [] then perform S (Press (or_else (step_key st) []))
              else Returns ())
      else Returns ())"

text \<open>The element screenshots: for the first ten findings of severity critical or high,
  in order, a finding with a selector gets the path of its element screenshot when one
  was taken. \<open>k\<close> counts the critical and high findings passed so far.\<close>

fun attach_screenshots :: "session \<Rightarrow> nat \<Rightarrow> Finding list \<Rightarrow> Finding list" where
  "attach_screenshots S k [] = []"
| "attach_screenshots S k (f # fs) =
     (if severity f = critical \<or> severity f = high
      then (if k < 10 \<and> selectors (evidence f) \<noteq> []
            then (case captureElement S (hd (selectors (evidence f)))
                         (or_else (ruleId f) ''finding'') of
                    None \<Rightarrow> f
                  | Some elementScreenshot \<Rightarrow>
                      if elementScreenshot = [] then f
                      else f\<lparr>evidence := (evidence f)\<lparr>screenshotPath := Some elementScreenshot\<rparr>\<rparr>)
            else f) # attach_screenshots S (Suc k) fs
      else f # attach_screenshots S k fs)"

record ScanJob =
  job_url :: string
  job_viewport :: ViewportConfig

text \<open>\<open>PageScanResult\<close>; its \<open>screenshotPath\<close> is \<open>pageScreenshotPath\<close> here, and the
  duration is left out (it is a difference of clock readings that nothing reads).\<close>

record PageScanResult =
  job :: ScanJob
  findings :: "Finding list"
  error :: "string option"
  pageScreenshotPath :: "string option"

text \<open>The statements of the \<open>try\<close> block up to the full-page screenshot.\<close>

definition prepare_page :: "(string \<Rightarrow> string) \<Rightarrow> session \<Rightarrow> ScanInput \<Rightarrow> string \<Rightarrow> unit outcome"
where
  "prepare_page expand S input u =
     run_steps id
       ((case auth input of
           None \<Rightarrow> []
         | Some a \<Rightarrow>
             (case cookies a of None \<Rightarrow> [] | Some _ \<Rightarrow> [perform S AddCookies]) @
             (case headers a of None \<Rightarrow> [] | Some _ \<Rightarrow> [perform S SetExtraHTTPHeaders]) @
             [run_steps (executeLoginStep expand S)
                (case loginSteps a of None \<Rightarrow> [] | Some steps \<Rightarrow> steps)]) @
        [perform S (Goto u),
         waitForStability S,
         run_steps (executeInteraction S)
           (case interactionPlan input of None \<Rightarrow> [] | Some steps \<Rightarrow> steps)])"

text \<open>The \<open>try\<close> block with its \<open>catch\<close>: the values of \<open>findings\<close>, \<open>error\<close> and
  \<open>screenshotPath\<close> when the block is left.\<close>

definition try_block ::
  "(string \<Rightarrow> string) \<Rightarrow> session \<Rightarrow> ScanInput \<Rightarrow> string
     \<Rightarrow> Finding list \<times> string option \<times> string option"
where
  "try_block expand S input u =
     (case prepare_page expand S input u of
        Throws e \<Rightarrow> ([], Some e, None)
      | Returns _ \<Rightarrow>
          (case captureFullPage S of
             Throws e \<Rightarrow> ([], Some e, None)
           | Returns shot \<Rightarrow>
               (case analyze S of
                  Throws e \<Rightarrow> ([], Some e, Some shot)
                | Returns (a11y, usab, specs) \<Rightarrow>
                    (attach_screenshots S 0 (a11y @ usab @ specs), None, Some shot))))"

text \<open>\<open>scanPage\<close>: \<open>Inl\<close> when the promise rejects, which is when creating the context or
  the page throws (both stand before the \<open>try\<close>) or closing the context throws (in the
  \<open>finally\<close>).\<close>

definition scanPage ::
  "(string \<Rightarrow> string) \<Rightarrow> (ScanJob \<Rightarrow> session) \<Rightarrow> ScanInput \<Rightarrow> ScanJob \<Rightarrow> string + PageScanResult"
where
  "scanPage expand B input j =
     (let S = B j in
      case newContext S of
        Throws e \<Rightarrow> Inl e
      | Returns _ \<Rightarrow>
          (case newPage S of
             Throws e \<Rightarrow> Inl e
           | Returns _ \<Rightarrow>
               (case try_block expand S input (job_url j) of
                  (fs, err, shot) \<Rightarrow>
                    (case closeContext S of
                       Throws e \<Rightarrow> Inl e
                     | Returns _ \<Rightarrow>
                         Inr \<lparr>job = j, findings = fs, error = err,
                              pageScreenshotPath = shot\<rparr>))))"

text \<open>\<open>Promise.all\<close> over the jobs of a batch: the results in order when every job
  fulfils. When some job rejects, \<open>Promise.all\<close> rejects with the rejection that happens
  first in time, which the order of the batch does not tell: \<open>Inl\<close> holds the rejections
  of the batch's jobs, in batch order, and the promise rejects with one of them.\<close>

fun promise_all :: "('e + 'a) list \<Rightarrow> 'e list + 'a list" where
  "promise_all [] = Inr []"
| "promise_all (Inl e # rs) =
     Inl (e # (case promise_all rs of Inl es \<Rightarrow> es | Inr xs \<Rightarrow> []))"
| "promise_all (Inr x # rs) =
     (case promise_all rs of Inl es \<Rightarrow> Inl es | Inr xs \<Rightarrow> Inr (x # xs))"

text \<open>\<open>ScanError\<close>, its fields prefixed (\<open>pageUrl\<close>, \<open>viewport\<close>, \<open>error\<close>, \<open>timestamp\<close>).\<close>

record ScanError =
  err_pageUrl :: string
  err_viewport :: string
  err_error :: string
  err_timestamp :: string

text \<open>The locals of \<open>scan\<close> that the loop over the results updates. \<open>now k\<close> is
  \<open>new Date().toISOString()\<close> read while the \<open>k\<close>-th result is handled.\<close>

record scan_acc =
  allFindings :: "Finding list"
  errors :: "ScanError list"
  completedJobs :: nat

definition record_result :: "(nat \<Rightarrow> string) \<Rightarrow> scan_acc \<Rightarrow> PageScanResult \<Rightarrow> scan_acc" where
  "record_result now acc r =
     (let k = completedJobs acc + 1 in
      if or_else (error r) [] \<noteq> []
      then acc\<lparr>completedJobs := k,
               errors := errors acc @
                 [\<lparr>err_pageUrl = job_url (job r),
                   err_viewport = viewport_name (name (job_viewport (job r))),
                   err_error = or_else (error r) [],
                   err_timestamp = now k\<rparr>]\<rparr>
      else acc\<lparr>completedJobs := k, allFindings := allFindings acc @ findings r\<rparr>)"

text \<open>\<open>this.options.concurrency || 3\<close>.\<close>

definition batchSize :: "ScannerOptions \<Rightarrow> nat" where
  "batchSize opts = (if concurrency opts = 0 then 3 else concurrency opts)"

text \<open>The loop over the batches, on the jobs from index \<open>i\<close> on. A batch that rejects
  ends the loop: the batches after it are not started.\<close>

function run_batches ::
  "(string \<Rightarrow> string) \<Rightarrow> (ScanJob \<Rightarrow> session) \<Rightarrow> (nat \<Rightarrow> string) \<Rightarrow> ScannerOptions \<Rightarrow> ScanInput
     \<Rightarrow> ScanJob list \<Rightarrow> scan_acc \<Rightarrow> string list + scan_acc"
where
  "run_batches expand B now opts input jobs acc =
     (if jobs = [] then Inr acc
      else (case promise_all (map (scanPage expand B input) (take (batchSize opts) jobs)) of
              Inl es \<Rightarrow> Inl es
            | Inr results \<Rightarrow>
                run_batches expand B now opts input (drop (batchSize opts) jobs)
                  (foldl (record_result now) acc results)))"
  by pat_completeness auto
termination
  by (relation "measure (\<lambda>(expand, B, now, opts, input, jobs, acc). length jobs)")
     (auto simp: batchSize_def)

declare run_batches.simps [simp del]

definition make_jobs :: "string list \<Rightarrow> ViewportConfig list \<Rightarrow> ScanJob list" where
  "make_jobs urls vps = concat (map (\<lambda>u. map (\<lambda>v. \<lparr>job_url = u, job_viewport = v\<rparr>) vps) urls)"

text \<open>The decimal digits of a number, as a template literal prints it.\<close>

fun show_nat :: "nat \<Rightarrow> string" where
  "show_nat n = (if n < 10 then [''0123456789'' ! n] else show_nat (n div 10) @ [''0123456789'' ! (n mod 10)])"

declare show_nat.simps [simp del]

definition show_int :: "int \<Rightarrow> string" where
  "show_int i = (if i < 0 then ''-'' @ show_nat (nat (- i)) else show_nat (nat i))"

text \<open>\<open>a % b\<close> on integers: the remainder has the sign of \<open>a\<close>.\<close>

definition js_rem :: "int \<Rightarrow> int \<Rightarrow> int" where
  "js_rem a b = sgn a * (\<bar>a\<bar> mod \<bar>b\<bar>)"

text \<open>\<open>formatDuration\<close> on a number of milliseconds, which is a difference of clock
  readings and can be negative. \<open>Math.floor(x / d)\<close> for integers \<open>x\<close> and \<open>d > 0\<close> is
  \<open>x div d\<close>.\<close>

definition formatDuration :: "int \<Rightarrow> string" where
  "formatDuration ms =
     (let seconds = ms div 1000; minutes = seconds div 60; remainingSeconds = js_rem seconds 60
      in if 0 < minutes then show_int minutes @ ''m '' @ show_int remainingSeconds @ ''s''
         else show_int seconds @ ''s'')"

record ScanSummary =
  pagesScanned :: nat
  scanDuration :: string
  startTime :: string
  endTime :: string
  findingsBySeverity :: "Severity \<Rightarrow> nat"
  byCategory :: "FindingCategory \<Rightarrow> nat"
  viewportsScanned :: "string list"
  summary_errors :: "ScanError list"

definition buildSummary ::
  "nat \<Rightarrow> string \<Rightarrow> string \<Rightarrow> string \<Rightarrow> 'a Finding_scheme list \<Rightarrow> string list \<Rightarrow> ScanError list
     \<Rightarrow> ScanSummary"
where
  "buildSummary pages dur startT endT fs vps errs =
     \<lparr>pagesScanned = pages, scanDuration = dur, startTime = startT, endTime = endT,
      findingsBySeverity =
        foldl (\<lambda>m f. m(severity f := m (severity f) + 1)) (\<lambda>_. 0) fs,
      byCategory =
        foldl (\<lambda>m f. m(category f := m (category f) + 1)) (\<lambda>_. 0) fs,
      viewportsScanned = vps, summary_errors = errs\<rparr>"

fun confidenceOrder :: "Confidence \<Rightarrow> int" where
  "confidenceOrder certain = 0"
| "confidenceOrder likely = 1"
| "confidenceOrder needs_review = 2"

definition compare_top :: "'a Finding_scheme \<Rightarrow> 'a Finding_scheme \<Rightarrow> int" where
  "compare_top a b =
     (let severityDiff = severityOrder (severity a) - severityOrder (severity b)
      in if severityDiff \<noteq> 0 then severityDiff
         else confidenceOrder (confidence a) - confidenceOrder (confidence b))"

definition getTopFindings :: "'a Finding_scheme list \<Rightarrow> nat \<Rightarrow> 'a Finding_scheme list" where
  "getTopFindings fs limit = take limit (sort_by compare_top fs)"

record ScanOutput =
  summary :: ScanSummary
  topFindings :: "ClusteredFinding list"
  out_allFindings :: "ClusteredFinding list"

text \<open>The clock of a run: the readings \<open>getTime()\<close> at the start and at the end of
  \<open>scan\<close> in milliseconds (a wall clock, which may be set back during the run),
  \<open>toISOString\<close>, and the readings taken while results are handled.\<close>

record run_clock =
  start_ms :: int
  end_ms :: int
  toISOString :: "int \<Rightarrow> string"
  now :: "nat \<Rightarrow> string"

text \<open>\<open>scan\<close> from the point where \<open>discoverUrls\<close> has returned \<open>urls\<close>, up to the summary
  and the findings it returns; writing the report files is outside the model. \<open>Inl\<close>
  says that \<open>scan\<close> rejects, with one of the exceptions it holds (those of the batch that
  rejected).\<close>

definition scan ::
  "platform \<Rightarrow> (string \<Rightarrow> string) \<Rightarrow> (ScanJob \<Rightarrow> session) \<Rightarrow> run_clock \<Rightarrow> ScannerOptions
     \<Rightarrow> ScanInput \<Rightarrow> string list \<Rightarrow> string list + ScanOutput"
where
  "scan P expand B clock opts input urls =
     (let vps = map VIEWPORT_PRESETS
                  (case viewports input of None \<Rightarrow> [desktop] | Some vs \<Rightarrow> vs);
          jobs = make_jobs urls vps
      in case run_batches expand B (now clock) opts input jobs
                \<lparr>allFindings = [], errors = [], completedJobs = 0\<rparr> of
           Inl es \<Rightarrow> Inl es
         | Inr acc \<Rightarrow>
             (let dedupedFindings = deduplicateFindings P (allFindings acc)
              in Inr \<lparr>summary =
                        buildSummary (length urls)
                          (formatDuration (end_ms clock - start_ms clock))
                          (toISOString clock (start_ms clock))
                          (toISOString clock (end_ms clock))
                          dedupedFindings
                          (map (\<lambda>v. viewport_name (name v)) vps)
                          (errors acc),
                      topFindings = getTopFindings dedupedFindings 10,
                      out_allFindings = dedupedFindings\<rparr>))"

text \<open>
  What the spec says of a failing job, in its own terms. The steps of a job that
  \<open>scanPage\<close> awaits inside its \<open>try\<close>, in order, each with its outcome: the cookies and
  the headers (when configured), the login steps, the navigation, the wait for stability,
  the steps of the interaction plan, the full-page screenshot and the analyzers. A job
  fails when one of them throws; its error is the message of the first that does.
\<close>

fun void :: "'a outcome \<Rightarrow> unit outcome" where
  "void (Returns x) = Returns ()"
| "void (Throws m) = Throws m"

definition job_steps ::
  "(string \<Rightarrow> string) \<Rightarrow> session \<Rightarrow> ScanInput \<Rightarrow> string \<Rightarrow> unit outcome list" where
  "job_steps expand S input u =
     (case auth input of
        None \<Rightarrow> []
      | Some a \<Rightarrow>
          (case cookies a of None \<Rightarrow> [] | Some _ \<Rightarrow> [perform S AddCookies]) @
          (case headers a of None \<Rightarrow> [] | Some _ \<Rightarrow> [perform S SetExtraHTTPHeaders]) @
          map (executeLoginStep expand S)
            (case loginSteps a of None \<Rightarrow> [] | Some steps \<Rightarrow> steps)) @
     [perform S (Goto u), waitForStability S] @
     map (executeInteraction S)
       (case interactionPlan input of None \<Rightarrow> [] | Some steps \<Rightarrow> steps) @
     [void (captureFullPage S), void (analyze S)]"

fun first_throw :: "unit outcome list \<Rightarrow> string option" where
  "first_throw [] = None"
| "first_throw (Returns _ # os) = first_throw os"
| "first_throw (Throws m # os) = Some m"

definition spec_job_error ::
  "(string \<Rightarrow> string) \<Rightarrow> (ScanJob \<Rightarrow> session) \<Rightarrow> ScanInput \<Rightarrow> ScanJob \<Rightarrow> string option" where
  "spec_job_error expand B input j = first_throw (job_steps expand (B j) input (job_url j))"

text \<open>A job that fails contributes no findings; any other job contributes the findings
  of its three analyzers (with the element screenshots attached).\<close>

definition spec_job_findings ::
  "(string \<Rightarrow> string) \<Rightarrow> (ScanJob \<Rightarrow> session) \<Rightarrow> ScanInput \<Rightarrow> ScanJob \<Rightarrow> Finding list" where
  "spec_job_findings expand B input j =
     (case spec_job_error expand B input j of
        Some m \<Rightarrow> []
      | None \<Rightarrow>
          (case analyze (B j) of
             Returns (a11y, usab, specs) \<Rightarrow> attach_screenshots (B j) 0 (a11y @ usab @ specs)
           | Throws m \<Rightarrow> []))"

text \<open>A job that fails with a message that is not empty gives one error for its URL and
  viewport name.\<close>

definition spec_job_errors ::
  "(string \<Rightarrow> string) \<Rightarrow> (ScanJob \<Rightarrow> session) \<Rightarrow> ScanInput \<Rightarrow> ScanJob
     \<Rightarrow> (string \<times> string \<times> string) list" where
  "spec_job_errors expand B input j =
     (case spec_job_error expand B input j of
        None \<Rightarrow> []
      | Some m \<Rightarrow>
          if m = [] then [] else [(job_url j, viewport_name (name (job_viewport j)), m)])"

text \<open>The failures that are not a job's error but end the run: the context or the page
  cannot be created, or the context cannot be closed. The page is created only in a
  context that exists, and the context is closed only after the page was created.\<close>

definition context_failure :: "session \<Rightarrow> string option" where
  "context_failure S =
     (case newContext S of
        Throws m \<Rightarrow> Some m
      | Returns _ \<Rightarrow>
          (case newPage S of
             Throws m \<Rightarrow> Some m
           | Returns _ \<Rightarrow>
               (case closeContext S of Throws m \<Rightarrow> Some m | Returns _ \<Rightarrow> None)))"

text \<open>The fields of a \<open>ScanError\<close> apart from its timestamp.\<close>

definition error_key :: "ScanError \<Rightarrow> string \<times> string \<times> string" where
  "error_key e = (err_pageUrl e, err_viewport e, err_error e)"

text \<open>Creating the context and the page and closing the context all return.\<close>

definition contexts_ok :: "session \<Rightarrow> bool" where
  "contexts_ok S \<longleftrightarrow>
     newContext S = Returns () \<and> newPage S = Returns () \<and> closeContext S = Returns ()"

section \<open>Loop invariants\<close>

text \<open>The invariant of the grouping loop: the keys are distinct, every group is the list
  of the findings read so far that have its key as signature, in input order, and every
  finding read so far has its signature among the keys.\<close>

definition grouped :: "platform \<Rightarrow> Finding list \<Rightarrow> (string \<times> Finding list) list \<Rightarrow> bool" where
  "grouped P fs G \<longleftrightarrow>
     distinct (map fst G)
     \<and> (\<forall>s g. (s, g) \<in> set G \<longrightarrow> g \<noteq> [] \<and> g = filter (\<lambda>f. generateSignature P f = s) fs)
     \<and> (\<forall>f \<in> set fs. generateSignature P f \<in> fst ` set G)"

text \<open>The invariants of the crawl loop. Breadth-first: the depths of the pages
  discovered so far, followed by the depths of the queued items, never decrease; the
  queued depths differ by at most one; and the log of visits lists the discovered URLs.
  Discovered once: the discovered URLs are distinct under normalisation, are all in the
  visited set, and none was in the visited set the crawl started with.\<close>

definition bfs_inv :: "crawl_state \<Rightarrow> bool" where
  "bfs_inv st \<longleftrightarrow>
     sorted (map snd (visits st) @ map depth (queue st))
     \<and> (\<forall>x \<in> set (queue st). \<forall>y \<in> set (queue st). depth x \<le> depth y + 1)
     \<and> map fst (visits st) = discoveredUrls st"

definition once_inv :: "platform \<Rightarrow> string list \<Rightarrow> crawl_state \<Rightarrow> bool" where
  "once_inv P visited0 st \<longleftrightarrow>
     distinct (map (normalizeUrl P) (discoveredUrls st))
     \<and> set (map (normalizeUrl P) (discoveredUrls st)) \<subseteq> set (visited st)
     \<and> set (map (normalizeUrl P) (discoveredUrls st)) \<inter> set visited0 = {}
     \<and> set visited0 \<subseteq> set (visited st)"

section \<open>Example instances\<close>

text \<open>An instance of the platform for the worked examples: \<open>https\<close> URLs of the form
  \<open>https://host/path\<close> without port, query or fragment; a digest that keeps its input
  apart (the identity); patterns without metacharacters, which a regular expression
  matches as substrings, and the pattern \<open>(\<close>, which does not compile; and the two
  sitemap documents used below.\<close>

definition example_new_URL :: "string \<Rightarrow> URL option" where
  "example_new_URL s =
     (case strip_prefix ''https://'' s of
        None \<Rightarrow> None
      | Some r \<Rightarrow>
          (let host = takeWhile (\<lambda>c. c \<noteq> CHR ''/'') r;
               path = (if dropWhile (\<lambda>c. c \<noteq> CHR ''/'') r = [] then ''/''
                       else dropWhile (\<lambda>c. c \<noteq> CHR ''/'') r)
           in if host = [] then None
              else Some \<lparr>href = ''https://'' @ host @ path, protocol = ''https:'',
                         origin = ''https://'' @ host, hostname = host, pathname = path,
                         searchParams = []\<rparr>))"

definition example_urlset :: string where
  "example_urlset =
     ''<urlset><url><loc>https://example.com/a</loc></url><url><loc>https://example.com/b</loc></url><url><loc>https://example.com/c</loc></url></urlset>''"

definition example_parseString :: "string \<Rightarrow> xml_result option" where
  "example_parseString doc =
     (if doc = example_urlset
      then Some \<lparr>sitemapindex = None,
                 urlset = Some (Some
                   [\<lparr>loc_elems = [''https://example.com/a''], lastmod_elems = [],
                     changefreq_elems = [], priority_elems = []\<rparr>,
                    \<lparr>loc_elems = [''https://example.com/b''], lastmod_elems = [],
                     changefreq_elems = [], priority_elems = []\<rparr>,
                    \<lparr>loc_elems = [''https://example.com/c''], lastmod_elems = [],
                     changefreq_elems = [], priority_elems = []\<rparr>])\<rparr>
      else None)"

definition example_platform :: platform where
  "example_platform =
     \<lparr>new_URL = example_new_URL,
      URL_resolve = (\<lambda>h base. example_new_URL h),
      md5_hex = (\<lambda>s. s),
      RegExp_test = (\<lambda>p s. if p = ''('' then None else Some (str_includes s p)),
      URLSearchParams_toString = (\<lambda>ps. join ''&'' (map (\<lambda>kv. fst kv @ ''='' @ snd kv) ps)),
      parseString = example_parseString\<rparr>"

text \<open>A finding of the rule \<open>label\<close> with the given id, page, viewport and selectors.\<close>

definition example_finding ::
  "string \<Rightarrow> string \<Rightarrow> ViewportPreset \<Rightarrow> string list \<Rightarrow> Finding" where
  "example_finding i u v sels =
     \<lparr>finding_id = i, category = accessibility, severity = high, confidence = certain,
      pageUrl = u, viewport = v, title = ''Form field has no label'',
      description = ''The input has no accessible name'',
      evidence = \<lparr>selectors = sels, domSnippet = None, screenshotPath = None\<rparr>,
      tool = Some ''axe-core'', ruleId = Some ''label''\<rparr>"

text \<open>Two findings on one page in one viewport, whose selectors differ in the position
  only.\<close>

definition example_same_page :: "Finding list" where
  "example_same_page =
     [example_finding ''f1'' ''https://shop.example.com/cart'' desktop
        [''li:nth-child(1) > input''],
      example_finding ''f2'' ''https://shop.example.com/cart'' desktop
        [''li:nth-child(2) > input'']]"

text \<open>The same finding on one page in two viewports.\<close>

definition example_two_viewports :: "Finding list" where
  "example_two_viewports =
     [example_finding ''f1'' ''https://shop.example.com/cart'' desktop [''form > input''],
      example_finding ''f2'' ''https://shop.example.com/cart'' mobile [''form > input'']]"

text \<open>A site of three pages: the start page links to \<open>/b\<close> and \<open>/c\<close>, and \<open>/b\<close> links
  to \<open>/c\<close>. It serves no robots.txt.\<close>

definition example_site :: site where
  "example_site =
     \<lparr>fetch_robots = (\<lambda>org. None),
      load_page = (\<lambda>u.
        if u = ''https://example.com/''
          then Some \<lparr>location = u,
                      anchors = [''https://example.com/b'', ''https://example.com/c'']\<rparr>
        else if u = ''https://example.com/b''
          then Some \<lparr>location = u, anchors = [''https://example.com/c'']\<rparr>
        else if u = ''https://example.com/c'' then Some \<lparr>location = u, anchors = []\<rparr>
        else None)\<rparr>"

definition example_bfs_options :: BfsCrawlerOptions where
  "example_bfs_options =
     \<lparr>maxPages = 10, maxDepth = 3, BfsCrawlerOptions.allowDomains = [],
      BfsCrawlerOptions.denyPatterns = [], respectRobotsTxt = True, sameDomainOnly = True\<rparr>"

text \<open>The state in which \<open>crawl\<close> enters its loop on the start page, and the states in
  which it returns with \<open>maxPages\<close> 10 and with \<open>maxPages\<close> 2.\<close>

definition example_bfs_start :: crawl_state where
  "example_bfs_start =
     \<lparr>queue = [\<lparr>url = ''https://example.com/'', depth = 0, referrer = None\<rparr>],
      visited = [], disallowedPaths = [], discoveredUrls = [], visits = []\<rparr>"

definition example_bfs_final :: crawl_state where
  "example_bfs_final =
     \<lparr>queue = [],
      visited = [''https://example.com/'', ''https://example.com/b'', ''https://example.com/c''],
      disallowedPaths = [],
      discoveredUrls =
        [''https://example.com/'', ''https://example.com/b'', ''https://example.com/c''],
      visits = [(''https://example.com/'', 0), (''https://example.com/b'', 1),
                (''https://example.com/c'', 1)]\<rparr>"

definition example_bfs_final2 :: crawl_state where
  "example_bfs_final2 =
     \<lparr>queue = [\<lparr>url = ''https://example.com/c'', depth = 1,
                 referrer = Some ''https://example.com/''\<rparr>],
      visited = [''https://example.com/'', ''https://example.com/b''],
      disallowedPaths = [],
      discoveredUrls = [''https://example.com/'', ''https://example.com/b''],
      visits = [(''https://example.com/'', 0), (''https://example.com/b'', 1)]\<rparr>"

text \<open>Three networks. On the first, \<open>/sitemap.xml\<close> is reached through two redirects. On
  the second, no common location exists, robots.txt names a sitemap, and that sitemap
  does not exist either. On the third, the request for \<open>/sitemap.xml\<close> times out and
  \<open>/sitemap_index.xml\<close> holds the sitemap.\<close>

definition example_network :: network where
  "example_network =
     \<lparr>https_get = (\<lambda>u timeout.
        if u = ''https://example.com/sitemap.xml''
          then Response 301 (Some ''https://www.example.com/sitemap.xml'') (Some [])
        else if u = ''https://www.example.com/sitemap.xml''
          then Response 302 (Some ''https://www.example.com/sitemaps/main.xml'') (Some [])
        else if u = ''https://www.example.com/sitemaps/main.xml''
          then Response 200 None (Some example_urlset)
        else Response 404 None (Some [])),
      http_get = (\<lambda>u timeout. RequestError)\<rparr>"

definition example_network_robots :: network where
  "example_network_robots =
     \<lparr>https_get = (\<lambda>u timeout.
        if u = ''https://example.com/robots.txt''
          then Response 200 None
                 (Some (''User-agent: *'' @ [CHR 0x0A]
                        @ ''Sitemap: https://example.com/missing.xml'' @ [CHR 0x0A]))
        else Response 404 None (Some [])),
      http_get = (\<lambda>u timeout. RequestError)\<rparr>"

definition example_network_timeout :: network where
  "example_network_timeout =
     \<lparr>https_get = (\<lambda>u timeout.
        if u = ''https://example.com/sitemap.xml'' then RequestTimeout
        else if u = ''https://example.com/sitemap_index.xml''
          then Response 200 None (Some example_urlset)
        else Response 404 None (Some [])),
      http_get = (\<lambda>u timeout. RequestError)\<rparr>"

definition example_sitemap_options :: SitemapOptions where
  "example_sitemap_options =
     \<lparr>maxUrls = 2, allowDomains = [''example.com''], denyPatterns = [''('', ''admin''],
      includeImages = False\<rparr>"

text \<open>A session in which everything succeeds and the analyzers report one finding; a
  browser in which the page \<open>/down\<close> refuses the connection, the analyzers fail on the
  page \<open>/broken\<close>, no context can be created for the page \<open>/crash\<close>, no page for
  \<open>/crash-page\<close>, and the context of \<open>/crash-close\<close> cannot be closed.\<close>

definition example_session :: session where
  "example_session =
     \<lparr>newContext = Returns (), newPage = Returns (), perform = (\<lambda>op. Returns ()),
      waitForStability = Returns (), captureFullPage = Returns ''screenshots/0001-page.png'',
      analyze = Returns ([example_finding ''f1'' ''https://example.com/'' desktop [''form > input'']],
                         [], []),
      captureElement = (\<lambda>sel rule. None), closeContext = Returns ()\<rparr>"

definition example_browser :: "ScanJob \<Rightarrow> session" where
  "example_browser j =
     (if job_url j = ''https://example.com/down''
        then example_session\<lparr>perform := (\<lambda>op. case op of
                 Goto u \<Rightarrow> Throws ''net::ERR_CONNECTION_REFUSED''
               | _ \<Rightarrow> Returns ())\<rparr>
      else if job_url j = ''https://example.com/broken''
        then example_session\<lparr>analyze := Throws ''page.evaluate: Execution context was destroyed''\<rparr>
      else if job_url j = ''https://example.com/crash''
        then example_session\<lparr>newContext := Throws ''Target page, context or browser has been closed''\<rparr>
      else if job_url j = ''https://example.com/crash-page''
        then example_session\<lparr>newPage := Throws ''browserContext.newPage: Target closed''\<rparr>
      else if job_url j = ''https://example.com/crash-close''
        then example_session\<lparr>closeContext := Throws ''browserContext.close: Connection closed''\<rparr>
      else example_session)"

definition example_input :: ScanInput where
  "example_input = \<lparr>auth = None, interactionPlan = None, viewports = Some [desktop]\<rparr>"

definition example_clock :: run_clock where
  "example_clock =
     \<lparr>start_ms = 1000, end_ms = 63000, toISOString = show_int,
      now = (\<lambda>k. show_nat (1000 + k))\<rparr>"

definition example_scanner_options :: ScannerOptions where
  "example_scanner_options = \<lparr>concurrency = 3, verbose = False\<rparr>"

definition example_jobs :: "ScanJob list" where
  "example_jobs =
     make_jobs [''https://example.com/'', ''https://example.com/down''] [VIEWPORT_PRESETS desktop]"

section \<open>Properties of the string primitives\<close>

lemma strip_prefix_sep:
  "x \<notin> set p \<Longrightarrow>
   strip_prefix p (s @ x # t) = map_option (\<lambda>r. r @ x # t) (strip_prefix p s)"
proof (induction p arbitrary: s)
  case Nil
  then show ?case by simp
next
  case (Cons a p)
  then show ?case by (cases s) auto
qed

lemma digits1_sep:
  "\<not> is_digit x \<Longrightarrow> digits1 (s @ x # t) = map_option (\<lambda>r. r @ x # t) (digits1 s)"
  unfolding digits1_def
  apply (cases "\<forall>c\<in>set s. is_digit c")
   apply (auto simp: takeWhile_append2 dropWhile_append2 takeWhile_append1 dropWhile_append1)
  apply (metis takeWhile_eq_all_conv)
  done

lemma bind_sep:
  assumes "\<And>s. f (s @ x # t) = map_option (\<lambda>r. r @ x # t) (f s)"
  shows "Option.bind (map_option (\<lambda>r. r @ x # t) a) f
         = map_option (\<lambda>r. r @ x # t) (Option.bind a f)"
  using assms by (cases a) auto

text \<open>A match of \<open>:nth-child(\<dots>)\<close> that starts before a colon ends before it: the text
  after the colon has no say in it.\<close>

lemma match_nth_child_sep:
  assumes "s \<noteq> []"
  shows "match_nth_child (s @ CHR '':'' # t)
         = map_option (\<lambda>r. r @ CHR '':'' # t) (match_nth_child s)"
proof -
  obtain c cs where s: "s = c # cs" using assms by (cases s) auto
  have nd: "\<not> is_digit CHR '':''" by (simp add: is_digit_def)
  have b: "strip_prefix '':nth-child('' (c # u)
           = (if c = CHR '':'' then strip_prefix ''nth-child('' u else None)" for u
    by simp
  have a: "strip_prefix ''nth-child('' (cs @ CHR '':'' # t)
           = map_option (\<lambda>r. r @ CHR '':'' # t) (strip_prefix ''nth-child('' cs)"
    by (rule strip_prefix_sep) simp
  have c: "strip_prefix '')'' (u @ CHR '':'' # t)
           = map_option (\<lambda>r. r @ CHR '':'' # t) (strip_prefix '')'' u)" for u
    by (rule strip_prefix_sep) simp
  show ?thesis
    unfolding match_nth_child_def s append_Cons b
    by (simp only: a bind_sep[where f=digits1, OF digits1_sep[OF nd]]
          bind_sep[where f="strip_prefix '')''", OF c]
          if_distrib[of "\<lambda>z. Option.bind z _"] if_distrib[of "map_option _"]
          Option.bind.simps option.map cong: if_cong)
qed

lemma match_numeric_segment_sep:
  assumes "s \<noteq> []"
  shows "match_numeric_segment (s @ CHR ''/'' # t)
         = map_option (\<lambda>r. r @ CHR ''/'' # t) (match_numeric_segment s)"
proof -
  obtain c cs where s: "s = c # cs" using assms by (cases s) auto
  have nd: "\<not> is_digit CHR ''/''" by (simp add: is_digit_def)
  show ?thesis
  proof (cases "c = CHR ''/''")
    case True
    then show ?thesis unfolding match_numeric_segment_def s by (simp add: digits1_sep[OF nd])
  next
    case False
    then show ?thesis unfolding match_numeric_segment_def s by simp
  qed
qed

text \<open>A global replacement works on the two sides of such a separator independently.\<close>

lemma replace_all_sep:
  assumes sep: "\<And>s. s \<noteq> [] \<Longrightarrow> m (s @ x # t) = map_option (\<lambda>r. r @ x # t) (m s)"
  shows "replace_all m rep (pre @ x # t) = replace_all m rep pre @ replace_all m rep (x # t)"
proof (induction pre rule: length_induct)
  case (1 pre)
  show ?case
  proof (cases pre)
    case Nil
    then show ?thesis by simp
  next
    case (Cons c cs)
    have m: "m (c # cs @ x # t) = map_option (\<lambda>r. r @ x # t) (m (c # cs))"
      using sep[of "c # cs"] by simp
    show ?thesis
    proof (cases "m (c # cs)")
      case None
      then show ?thesis using 1 Cons m by simp
    next
      case (Some r)
      show ?thesis
      proof (cases "length r < length (c # cs)")
        case True
        then have "replace_all m rep (r @ x # t)
                   = replace_all m rep r @ replace_all m rep (x # t)"
          using 1 Cons by simp
        then show ?thesis using Some m True Cons by simp
      next
        case False
        then show ?thesis using 1 Cons m Some by simp
      qed
    qed
  qed
qed

lemma is_digit_simps [simp]:
  "is_digit CHR ''0''" "is_digit CHR ''1''" "is_digit CHR ''2''" "is_digit CHR ''3''"
  "is_digit CHR ''4''" "is_digit CHR ''5''" "is_digit CHR ''6''" "is_digit CHR ''7''"
  "is_digit CHR ''8''" "is_digit CHR ''9''"
  "\<not> is_digit CHR '')''" "\<not> is_digit CHR ''/''" "\<not> is_digit CHR '':''"
  by (simp_all add: is_digit_def)

lemma strip_nth_child_here:
  "replace_all match_nth_child [] ('':nth-child(2)'' @ post) = replace_all match_nth_child [] post"
  "replace_all match_nth_child [] ('':nth-child(7)'' @ post) = replace_all match_nth_child [] post"
  by (simp_all add: match_nth_child_def digits1_def)

lemma nth_child_2_7:
  "replace_all match_nth_child [] (pre @ '':nth-child(2)'' @ post)
   = replace_all match_nth_child [] (pre @ '':nth-child(7)'' @ post)"
proof -
  have "replace_all match_nth_child [] (pre @ CHR '':'' # t)
        = replace_all match_nth_child [] pre @ replace_all match_nth_child [] (CHR '':'' # t)"
    for t
    by (rule replace_all_sep) (rule match_nth_child_sep)
  from this[of "''nth-child(2)'' @ post"] this[of "''nth-child(7)'' @ post"]
  show ?thesis using strip_nth_child_here[of post] by simp
qed

lemma numeric_segment_here:
  "replace_all match_numeric_segment ''/:id'' (''/12'' @ rest)
   = ''/:id'' @ replace_all match_numeric_segment ''/:id'' (dropWhile is_digit rest)"
  "replace_all match_numeric_segment ''/:id'' (''/99'' @ rest)
   = ''/:id'' @ replace_all match_numeric_segment ''/:id'' (dropWhile is_digit rest)"
proof -
  have "length (dropWhile is_digit rest) \<le> length rest" by (rule length_dropWhile_le)
  then have l: "length (dropWhile is_digit rest) < Suc (Suc (Suc (length rest)))" by simp
  show "replace_all match_numeric_segment ''/:id'' (''/12'' @ rest)
        = ''/:id'' @ replace_all match_numeric_segment ''/:id'' (dropWhile is_digit rest)"
       "replace_all match_numeric_segment ''/:id'' (''/99'' @ rest)
        = ''/:id'' @ replace_all match_numeric_segment ''/:id'' (dropWhile is_digit rest)"
    using l by (simp_all add: match_numeric_segment_def digits1_def)
qed

lemma numeric_segment_12_99:
  "replace_all match_numeric_segment ''/:id'' (base @ ''/12'' @ rest)
   = replace_all match_numeric_segment ''/:id'' (base @ ''/99'' @ rest)"
proof -
  have "replace_all match_numeric_segment ''/:id'' (base @ CHR ''/'' # t)
        = replace_all match_numeric_segment ''/:id'' base
          @ replace_all match_numeric_segment ''/:id'' (CHR ''/'' # t)" for t
    by (rule replace_all_sep) (rule match_numeric_segment_sep)
  from this[of "''12'' @ rest"] this[of "''99'' @ rest"]
  show ?thesis using numeric_segment_here[of rest] by simp
qed

lemma uniq_acc_set: "set (uniq_acc seen xs) = set xs - set seen"
  by (induction seen xs rule: uniq_acc.induct) auto

lemma uniq_acc_distinct: "distinct (uniq_acc seen xs)"
  by (induction seen xs rule: uniq_acc.induct) (auto simp: uniq_acc_set)

lemma uniq_acc_length: "length (uniq_acc seen xs) \<le> length xs"
  by (induction seen xs rule: uniq_acc.induct) auto

lemma uniq_acc_shorter:
  "length (uniq_acc seen xs) < length xs \<longleftrightarrow> \<not> (distinct xs \<and> set xs \<inter> set seen = {})"
proof (induction seen xs rule: uniq_acc.induct)
  case (1 seen)
  then show ?case by simp
next
  case (2 seen x xs)
  show ?case
  proof (cases "x \<in> set seen")
    case True
    then show ?thesis using uniq_acc_length[of seen xs] by auto
  next
    case False
    then show ?thesis using 2 by auto
  qed
qed

lemma uniq_set: "set (uniq xs) = set xs"
  by (simp add: uniq_def uniq_acc_set)

lemma uniq_distinct: "distinct (uniq xs)"
  by (simp add: uniq_def uniq_acc_distinct)

lemma uniq_length: "length (uniq xs) \<le> length xs"
  by (simp add: uniq_def uniq_acc_length)

lemma uniq_shorter: "length (uniq xs) < length xs \<longleftrightarrow> \<not> distinct xs"
  by (simp add: uniq_def uniq_acc_shorter)

lemma insert_by_set: "set (insert_by cmp x xs) = insert x (set xs)"
  by (induction xs) auto

lemma sort_by_set: "set (sort_by cmp xs) = set xs"
  unfolding sort_by_def by (induction xs) (auto simp: insert_by_set)

section \<open>Properties of the cluster engine\<close>

lemma map_set_keys:
  "map fst (map_set m k v) = (if k \<in> fst ` set m then map fst m else map fst m @ [k])"
  by (induction m k v rule: map_set.induct) auto

lemma map_set_set:
  "distinct (map fst m) \<Longrightarrow> set (map_set m k v) = insert (k, v) {e \<in> set m. fst e \<noteq> k}"
  by (induction m k v rule: map_set.induct) (auto simp: rev_image_eqI)

lemma grouped_step:
  assumes "grouped P fs G"
  shows "grouped P (fs @ [f]) (add_to_clusters P G f)"
proof -
  let ?s = "generateSignature P f"
  have d: "distinct (map fst G)" using assms by (simp add: grouped_def)
  have grp: "\<And>s g. (s, g) \<in> set G
               \<Longrightarrow> g \<noteq> [] \<and> g = filter (\<lambda>f. generateSignature P f = s) fs"
    using assms by (simp add: grouped_def)
  have cov: "\<And>f. f \<in> set fs \<Longrightarrow> generateSignature P f \<in> fst ` set G"
    using assms by (simp add: grouped_def)
  define old where "old = filter (\<lambda>f'. generateSignature P f' = ?s) fs"
  have a: "add_to_clusters P G f = map_set G ?s (old @ [f])"
  proof (cases "map_of G ?s")
    case None
    then have "?s \<notin> fst ` set G" by (simp add: map_of_eq_None_iff)
    then have "\<forall>x\<in>set fs. generateSignature P x \<noteq> ?s" using cov by metis
    then have "old = []" by (simp add: old_def filter_empty_conv)
    then show ?thesis using None by (simp add: add_to_clusters_def)
  next
    case (Some g)
    then have "(?s, g) \<in> set G" using d by simp
    then have "g = old" unfolding old_def using grp by blast
    then show ?thesis using Some by (simp add: add_to_clusters_def)
  qed
  have S: "set (map_set G ?s (old @ [f])) = insert (?s, old @ [f]) {e \<in> set G. fst e \<noteq> ?s}"
    using d by (rule map_set_set)
  have 1: "distinct (map fst (add_to_clusters P G f))"
    unfolding a using d by (auto simp: map_set_keys)
  have 2: "g \<noteq> [] \<and> g = filter (\<lambda>f'. generateSignature P f' = s) (fs @ [f])"
    if "(s, g) \<in> set (add_to_clusters P G f)" for s g
  proof (cases "s = ?s")
    case True
    then have "g = old @ [f]" using that unfolding a S by auto
    then show ?thesis using True by (simp add: old_def)
  next
    case False
    then have "(s, g) \<in> set G" using that unfolding a S by auto
    then show ?thesis using grp False by auto
  qed
  have 3: "generateSignature P f' \<in> fst ` set (add_to_clusters P G f)"
    if "f' \<in> set (fs @ [f])" for f'
  proof (cases "generateSignature P f' = ?s")
    case True
    then show ?thesis unfolding a S by force
  next
    case False
    then have "f' \<in> set fs" using that by auto
    then obtain e where "e \<in> set G" "fst e = generateSignature P f'" using cov by fastforce
    then show ?thesis unfolding a S using False by force
  qed
  show ?thesis unfolding grouped_def using 1 2 3 by blast
qed

lemma grouped_group_by_signature: "grouped P fs (group_by_signature P fs)"
proof (induction fs rule: rev_induct)
  case Nil
  show ?case by (simp add: grouped_def group_by_signature_def)
next
  case (snoc f fs)
  then show ?case using grouped_step[of P fs "group_by_signature P fs" f]
    by (simp add: group_by_signature_def)
qed

text \<open>A cluster is built from its group; its signature is the group's, since the
  signature reads neither the id nor the derived fields.\<close>

lemma cluster_fields:
  "make_cluster g = Some c \<Longrightarrow>
     g \<noteq> [] \<and> occurrenceCount c = length g \<and> affectedPages c = uniq (map pageUrl g)
     \<and> generateSignature P c = generateSignature P (hd g)"
  unfolding make_cluster_def
  by (cases g)
     (auto simp: generateSignature_def signatureBase_def rule_key_def normalizedSelector_def
        ClusteredFinding.defs Finding.extend_def)

lemma dedup_clusters:
  assumes "c \<in> set (deduplicateFindings P fs)"
  shows "\<exists>s g. (s, g) \<in> set (group_by_signature P fs) \<and> make_cluster g = Some c"
  using assms unfolding deduplicateFindings_def sort_by_set
  by (auto simp: List.map_filter_def split: option.splits) blast

lemma cluster_members:
  assumes "c \<in> set (deduplicateFindings P fs)"
  shows "occurrenceCount c
           = length (filter (\<lambda>f. generateSignature P f = generateSignature P c) fs)
       \<and> affectedPages c
           = uniq (map pageUrl (filter (\<lambda>f. generateSignature P f = generateSignature P c) fs))"
proof -
  obtain s g where sg: "(s, g) \<in> set (group_by_signature P fs)"
    and mk: "make_cluster g = Some c"
    using dedup_clusters[OF assms] by blast
  have G: "grouped P fs (group_by_signature P fs)" by (rule grouped_group_by_signature)
  have g: "g \<noteq> []" "g = filter (\<lambda>f. generateSignature P f = s) fs"
    using G sg by (auto simp: grouped_def)
  have "hd g \<in> set g" using g(1) by simp
  then have "generateSignature P (hd g) = s"
    using g(2) by (metis (mono_tags, lifting) mem_Collect_eq set_filter)
  then have "generateSignature P c = s" using cluster_fields[OF mk, of P] by simp
  then show ?thesis using cluster_fields[OF mk, of P] g(2) by simp
qed

lemma dedup_pair:
  assumes "generateSignature P f1 = generateSignature P f2"
  shows "\<exists>c. deduplicateFindings P [f1, f2] = [c] \<and> occurrenceCount c = 2
           \<and> affectedPages c = uniq [pageUrl f1, pageUrl f2]"
  using assms
  by (simp add: deduplicateFindings_def group_by_signature_def add_to_clusters_def
        List.map_filter_def make_cluster_def sort_by_def ClusteredFinding.defs
        Finding.extend_def)

text \<open>The viewport names end in different letters, and the signature string ends in the
  viewport name, the separator and the URL pattern: two findings on one page with the
  same signature string have the same viewport.\<close>

lemma signatureBase_viewport:
  assumes "signatureBase P f = signatureBase P g" and "pageUrl f = pageUrl g"
  shows "viewport f = viewport g"
proof -
  let ?U = "''|'' @ extractUrlPattern P (pageUrl f)"
  have "(rule_key f @ ''|'' @ normalizedSelector f @ ''|'' @ viewport_name (viewport f)) @ ?U
        = (rule_key g @ ''|'' @ normalizedSelector g @ ''|'' @ viewport_name (viewport g)) @ ?U"
    using assms by (simp add: signatureBase_def)
  then have "rule_key f @ ''|'' @ normalizedSelector f @ ''|'' @ viewport_name (viewport f)
        = rule_key g @ ''|'' @ normalizedSelector g @ ''|'' @ viewport_name (viewport g)"
    by (simp only: append_same_eq)
  then have "last (rule_key f @ ''|'' @ normalizedSelector f @ ''|'' @ viewport_name (viewport f))
        = last (rule_key g @ ''|'' @ normalizedSelector g @ ''|'' @ viewport_name (viewport g))"
    by (rule arg_cong)
  moreover have "viewport_name v \<noteq> []" for v by (cases v) simp_all
  ultimately have "last (viewport_name (viewport f)) = last (viewport_name (viewport g))"
    by simp
  then show ?thesis by (cases "viewport f"; cases "viewport g") simp_all
qed

section \<open>Properties of the BFS crawler\<close>

lemma crawl_loop_invariant:
  assumes "Inv st"
    and "\<And>st stop st'. Inv st \<Longrightarrow> queue st \<noteq> [] \<Longrightarrow> length (discoveredUrls st) < maxPages opts
        \<Longrightarrow> crawl_iteration P W opts d st = (stop, st') \<Longrightarrow> Inv st'"
  shows "Inv (crawl_loop P W opts d st)"
  using assms
proof (induction P W opts d st rule: crawl_loop.induct)
  case (1 P W opts startDomain st)
  note step = 1(3)
  show ?case
  proof (cases "queue st \<noteq> [] \<and> length (discoveredUrls st) < maxPages opts")
    case False
    then show ?thesis using 1(2) by (auto simp: crawl_loop.simps[of _ _ _ _ st])
  next
    case True
    obtain stop st' where it: "crawl_iteration P W opts startDomain st = (stop, st')"
      by (cases "crawl_iteration P W opts startDomain st") auto
    have inv': "Inv st'" using step[OF 1(2) _ _ it] True by simp
    show ?thesis
    proof (cases stop)
      case True
      then show ?thesis using inv' it \<open>queue st \<noteq> [] \<and> _\<close> by (auto simp: crawl_loop.simps[of _ _ _ _ st])
    next
      case False
      have "Inv (crawl_loop P W opts startDomain st')"
        using 1(1)[OF True it[symmetric] False inv'] step by simp
      then show ?thesis using it False True by (auto simp: crawl_loop.simps[of _ _ _ _ st])
    qed
  qed
qed

lemma crawl_iteration_cases:
  assumes q: "queue st = item # rest" and it: "crawl_iteration P W opts d st = (stop, st')"
  shows "(\<not> stop \<and> st' = st\<lparr>queue := rest\<rparr>)
       \<or> (\<exists>new. st' = st\<lparr>queue := rest @ new,
                         visited := visited st @ [normalizeUrl P (url item)],
                         discoveredUrls := discoveredUrls st @ [url item],
                         visits := visits st @ [(url item, depth item)]\<rparr>
              \<and> normalizeUrl P (url item) \<notin> set (visited st)
              \<and> (\<forall>x \<in> set new. depth x = depth item + 1
                     \<and> normalizeUrl P (url x) \<notin> set (visited st @ [normalizeUrl P (url item)])))"
proof -
  let ?n = "normalizeUrl P (url item)"
  let ?st1 = "\<lambda>new. st\<lparr>queue := rest @ new, visited := visited st @ [?n],
                discoveredUrls := discoveredUrls st @ [url item],
                visits := visits st @ [(url item, depth item)]\<rparr>"
  let ?new = "\<lambda>pg. map (\<lambda>link. \<lparr>url = link, depth = depth item + 1, referrer = Some (url item)\<rparr>)
          (filter (\<lambda>link. normalizeUrl P link \<notin> set (visited st @ [?n]))
             (extractLinks P opts pg d))"
  show ?thesis
  proof (cases "?n \<in> set (visited st) \<or> maxDepth opts < depth item
                \<or> isDisallowed P (disallowedPaths st) (url item) \<or> \<not> isAllowed P opts (url item) d")
    case True
    then have "crawl_iteration P W opts d st = (False, st\<lparr>queue := rest\<rparr>)"
      unfolding crawl_iteration_def Let_def q by auto
    then show ?thesis using it by simp
  next
    case False
    then have n: "?n \<notin> set (visited st)" by simp
    have "st' = ?st1 [] \<or> (\<exists>pg. st' = ?st1 (?new pg))"
    proof (cases "maxPages opts \<le> Suc (length (discoveredUrls st)) \<or> maxDepth opts \<le> depth item
                  \<or> load_page W (url item) = None")
      case True
      then have "crawl_iteration P W opts d st = (maxPages opts \<le> Suc (length (discoveredUrls st)), ?st1 [])"
        using False unfolding crawl_iteration_def Let_def q by auto
      then show ?thesis using it by simp
    next
      case nt: False
      then obtain pg where pg: "load_page W (url item) = Some pg" by auto
      have "crawl_iteration P W opts d st = (False, ?st1 (?new pg))"
        using False nt pg unfolding crawl_iteration_def Let_def q by simp
      then show ?thesis using it by auto
    qed
    then obtain new where new: "st' = ?st1 new" "new = [] \<or> (\<exists>pg. new = ?new pg)" by blast
    have "\<forall>x \<in> set new. depth x = depth item + 1 \<and> normalizeUrl P (url x) \<notin> set (visited st @ [?n])"
      using new(2) by auto
    then show ?thesis using new(1) n by blast
  qed
qed

lemma sorted_const: "\<forall>x \<in> set xs. f x = (k::nat) \<Longrightarrow> sorted (map f xs)"
  by (induction xs) auto

lemma bfs_inv_step:
  assumes "bfs_inv st" "queue st \<noteq> []" "crawl_iteration P W opts d st = (stop, st')"
  shows "bfs_inv st'"
proof -
  obtain item rest where q: "queue st = item # rest" using assms(2) by (cases "queue st") auto
  from crawl_iteration_cases[OF q assms(3)]
  show ?thesis
  proof (elim disjE conjE exE)
    assume "st' = st\<lparr>queue := rest\<rparr>"
    then show ?thesis using assms(1) q by (auto simp: bfs_inv_def sorted_append)
  next
    fix new
    assume st': "st' = st\<lparr>queue := rest @ new,
                         visited := visited st @ [normalizeUrl P (url item)],
                         discoveredUrls := discoveredUrls st @ [url item],
                         visits := visits st @ [(url item, depth item)]\<rparr>"
      and new: "\<forall>x \<in> set new. depth x = depth item + 1
                     \<and> normalizeUrl P (url x) \<notin> set (visited st @ [normalizeUrl P (url item)])"
    have a: "sorted (map snd (visits st))" "\<forall>v \<in> set (visits st). snd v \<le> depth item"
      "sorted (map depth rest)" "\<forall>x \<in> set rest. depth item \<le> depth x \<and> depth x \<le> depth item + 1"
      "map fst (visits st) = discoveredUrls st"
      using assms(1) q by (auto simp: bfs_inv_def sorted_append)
    have s: "sorted (map depth (rest @ new))"
      using a(3,4) new sorted_const[of new depth "depth item + 1"] by (auto simp: sorted_append)
    have "sorted (map snd (visits st') @ map depth (queue st'))"
      unfolding st' using a s new by (auto simp: sorted_append) force+
    moreover have "\<forall>x \<in> set (queue st'). \<forall>y \<in> set (queue st'). depth x \<le> depth y + 1"
    proof (intro ballI)
      fix x y assume "x \<in> set (queue st')" "y \<in> set (queue st')"
      then have "x \<in> set rest \<or> x \<in> set new" "y \<in> set rest \<or> y \<in> set new"
        unfolding st' by auto
      then have "depth x \<le> depth item + 1" "depth item \<le> depth y"
        using a(4) new by auto
      then show "depth x \<le> depth y + 1" by simp
    qed
    moreover have "map fst (visits st') = discoveredUrls st'"
      unfolding st' using a(5) by simp
    ultimately show ?thesis by (simp add: bfs_inv_def)
  qed
qed

lemma once_inv_step:
  assumes "once_inv P visited0 st" "queue st \<noteq> []" "crawl_iteration P W opts d st = (stop, st')"
  shows "once_inv P visited0 st'"
proof -
  obtain item rest where q: "queue st = item # rest" using assms(2) by (cases "queue st") auto
  from crawl_iteration_cases[OF q assms(3)]
  show ?thesis
  proof (elim disjE conjE exE)
    assume "st' = st\<lparr>queue := rest\<rparr>"
    then show ?thesis using assms(1) by (simp add: once_inv_def)
  next
    fix new
    assume st': "st' = st\<lparr>queue := rest @ new,
                         visited := visited st @ [normalizeUrl P (url item)],
                         discoveredUrls := discoveredUrls st @ [url item],
                         visits := visits st @ [(url item, depth item)]\<rparr>"
      and n: "normalizeUrl P (url item) \<notin> set (visited st)"
    show ?thesis using assms(1) n unfolding st' once_inv_def by auto
  qed
qed

lemma bounded_step:
  assumes "length (discoveredUrls st) < maxPages opts" "queue st \<noteq> []"
     "crawl_iteration P W opts d st = (stop, st')"
  shows "length (discoveredUrls st') \<le> maxPages opts"
proof -
  obtain item rest where q: "queue st = item # rest" using assms(2) by (cases "queue st") auto
  from crawl_iteration_cases[OF q assms(3)] assms(1)
  show ?thesis by auto
qed

lemma crawl_run_invariants:
  assumes "crawl_run P W opts visited0 disallowed0 startUrl = Inr st"
  shows "bfs_inv st" "length (discoveredUrls st) \<le> maxPages opts" "once_inv P visited0 st"
proof -
  obtain startParsed where p: "new_URL P startUrl = Some startParsed"
    using assms by (auto simp: crawl_run_def split: option.splits)
  define st0 where "st0 = \<lparr>queue = [\<lparr>url = startUrl, depth = 0, referrer = None\<rparr>],
                  visited = visited0,
                  disallowedPaths =
                    (if respectRobotsTxt opts
                     then fetchRobotsTxt W (origin startParsed) disallowed0 else disallowed0),
                  discoveredUrls = [],
                  visits = []\<rparr>"
  have st: "st = crawl_loop P W opts (hostname startParsed) st0"
    using assms p by (simp add: crawl_run_def st0_def)
  have "bfs_inv st0" by (simp add: bfs_inv_def st0_def)
  then show "bfs_inv st" unfolding st
    by (rule crawl_loop_invariant) (rule bfs_inv_step)
  have "length (discoveredUrls st0) \<le> maxPages opts" by (simp add: st0_def)
  then show "length (discoveredUrls st) \<le> maxPages opts" unfolding st
    by (rule crawl_loop_invariant[where Inv = "\<lambda>s. length (discoveredUrls s) \<le> maxPages opts"])
       (rule bounded_step)
  have "once_inv P visited0 st0" by (simp add: once_inv_def st0_def)
  then show "once_inv P visited0 st" unfolding st
    by (rule crawl_loop_invariant) (rule once_inv_step)
qed

section \<open>Properties of sitemap discovery\<close>

lemma filterUrls_distinct: "distinct (filterUrls P opts urls)"
  by (simp add: filterUrls_def Let_def uniq_distinct)

lemma filterUrls_length:
  assumes "0 < maxUrls opts"
  shows "length (filterUrls P opts urls) \<le> maxUrls opts"
proof -
  have cut: "length (if maxUrls opts \<noteq> 0 \<and> maxUrls opts < length xs
                     then take (maxUrls opts) xs else xs) \<le> maxUrls opts" for xs :: "string list"
    using assms by auto
  show ?thesis
    unfolding filterUrls_def Let_def
    by (rule le_trans[OF uniq_length cut])
qed

lemma filterUrls_allowed:
  "allowDomains opts \<noteq> [] \<Longrightarrow> u \<in> set (filterUrls P opts urls) \<Longrightarrow> url_allowed P opts u"
  unfolding filterUrls_def Let_def
  by (auto simp: uniq_set split: if_splits dest: in_set_takeD)

lemma filterUrls_not_denied:
  "u \<in> set (filterUrls P opts urls) \<Longrightarrow> \<not> url_denied P opts u"
  unfolding filterUrls_def Let_def
  by (auto simp: uniq_set url_denied_def split: if_splits dest: in_set_takeD)

lemma crawl_result:
  assumes "SitemapCrawler_crawl n P N opts u = Some us"
  shows "us = [] \<or> (\<exists>urls. us = filterUrls P opts urls)"
  using assms by (cases n) (auto split: option.splits sum.splits)

lemma try_locations_result:
  "try_locations n P N opts org ls = Some (Some us) \<Longrightarrow> \<exists>urls. us = filterUrls P opts urls"
  by (induction ls) (auto split: option.splits if_splits dest: crawl_result)

lemma discover_result:
  assumes "discover n P N opts baseUrl = Some (Inr us)"
  shows "us = [baseUrl] \<or> us = [] \<or> (\<exists>urls. us = filterUrls P opts urls)"
  using assms unfolding discover_def
  by (auto split: option.splits sum.splits dest: crawl_result try_locations_result)

lemma index_loop_bound:
  assumes "index_loop n P N opts es urls = Some us" "length urls < maxUrls_or_100 opts"
  shows "length us \<le> maxUrls_or_100 opts"
  using assms
proof (induction es arbitrary: urls)
  case Nil
  then show ?case by simp
next
  case (Cons e es)
  show ?case
  proof (cases "has_loc e")
    case False
    then show ?thesis using Cons by simp
  next
    case True
    then obtain childUrls where c: "SitemapCrawler_crawl n P N opts (hd (loc_elems e)) = Some childUrls"
      using Cons.prems(1) by (auto split: option.splits)
    show ?thesis
    proof (cases "maxUrls_or_100 opts \<le> length urls + length childUrls")
      case over: True
      then have "us = urls @ map child_url
                   (slice0 childUrls (int (maxUrls_or_100 opts) - int (length urls)))"
        using Cons.prems(1) True c by simp
      then show ?thesis using Cons.prems(2) over by (simp add: slice0_def)
    next
      case under: False
      then have "index_loop n P N opts es (urls @ map child_url childUrls) = Some us"
        using Cons.prems(1) True c by simp
      then show ?thesis using Cons.IH[of "urls @ map child_url childUrls"] under by simp
    qed
  qed
qed

lemma maxUrls_or_100_pos: "0 < maxUrls_or_100 opts"
  by (simp add: maxUrls_or_100_def)

lemma parse_index_bound:
  assumes "parseString P content = Some result" "sitemapindex result = Some sitemaps"
    "urlset result = None" "parseSitemap n P N opts content = Some urls"
  shows "length urls \<le> maxUrls_or_100 opts"
  using assms index_loop_bound[of n P N opts _ "[]" urls] maxUrls_or_100_pos[of opts]
  by (auto split: option.splits)

section \<open>Properties of the scheduler\<close>

lemma promise_all_map_Inr: "promise_all (map Inr xs) = Inr xs"
  by (induction xs) auto

lemma promise_all_Inr: "promise_all rs = Inr xs \<Longrightarrow> rs = map Inr xs"
  by (induction rs arbitrary: xs rule: promise_all.induct) (auto split: sum.splits)

lemma promise_all_Inl:
  "promise_all rs = Inl es \<Longrightarrow> es \<noteq> [] \<and> set es = {e. Inl e \<in> set rs}"
  by (induction rs arbitrary: es rule: promise_all.induct)
     (auto split: sum.splits dest: promise_all_Inr)

lemma promise_all_rejects:
  "Inl e \<in> set rs \<Longrightarrow> \<exists>es. promise_all rs = Inl es"
  by (induction rs rule: promise_all.induct) (auto split: sum.splits)

text \<open>The loop returns exactly when every job fulfils, and then the batches do not show
  in its result.\<close>

lemma run_batches_fulfilled:
  "map (scanPage expand B input) jobs = map Inr results \<Longrightarrow>
   run_batches expand B clk opts input jobs acc = Inr (foldl (record_result clk) acc results)"
proof (induction expand B clk opts input jobs acc arbitrary: results rule: run_batches.induct)
  case (1 expand B clk opts input jobs acc)
  show ?case
  proof (cases "jobs = []")
    case True
    then show ?thesis using 1(2) by (simp add: run_batches.simps)
  next
    case False
    let ?k = "batchSize opts"
    have t: "map (scanPage expand B input) (take ?k jobs) = map Inr (take ?k results)"
      using 1(2) by (metis take_map)
    have d: "map (scanPage expand B input) (drop ?k jobs) = map Inr (drop ?k results)"
      using 1(2) by (metis drop_map)
    have p: "promise_all (map (scanPage expand B input) (take ?k jobs)) = Inr (take ?k results)"
      unfolding t by (rule promise_all_map_Inr)
    have "run_batches expand B clk opts input jobs acc
          = run_batches expand B clk opts input (drop ?k jobs)
              (foldl (record_result clk) acc (take ?k results))"
      using False p by (subst run_batches.simps) simp
    also have "\<dots> = Inr (foldl (record_result clk)
                          (foldl (record_result clk) acc (take ?k results)) (drop ?k results))"
      by (rule 1(1)[OF False p d])
    also have "\<dots> = Inr (foldl (record_result clk) acc results)"
      by (metis append_take_drop_id foldl_append)
    finally show ?thesis .
  qed
qed

text \<open>When some job rejects, the loop ends with the rejections of one batch.\<close>

lemma run_batches_rejected:
  "Inl e \<in> set (map (scanPage expand B input) jobs) \<Longrightarrow>
   \<exists>es. run_batches expand B clk opts input jobs acc = Inl es \<and> es \<noteq> []
        \<and> set es \<subseteq> {e. Inl e \<in> set (map (scanPage expand B input) jobs)}"
proof (induction expand B clk opts input jobs acc rule: run_batches.induct)
  case (1 expand B clk opts input jobs acc)
  let ?k = "batchSize opts"
  have ne: "jobs \<noteq> []" using 1(2) by auto
  have split: "map (scanPage expand B input) jobs
       = map (scanPage expand B input) (take ?k jobs) @ map (scanPage expand B input) (drop ?k jobs)"
    by (metis append_take_drop_id map_append)
  show ?case
  proof (cases "promise_all (map (scanPage expand B input) (take ?k jobs))")
    case (Inl es)
    have r: "run_batches expand B clk opts input jobs acc = Inl es"
      using ne Inl by (subst run_batches.simps) simp
    have "set es \<subseteq> {e. Inl e \<in> set (map (scanPage expand B input) jobs)}"
      using promise_all_Inl[OF Inl] by (subst split) auto
    then show ?thesis using r promise_all_Inl[OF Inl] by blast
  next
    case (Inr results)
    have r: "run_batches expand B clk opts input jobs acc
             = run_batches expand B clk opts input (drop ?k jobs)
                 (foldl (record_result clk) acc results)"
      using ne Inr by (subst run_batches.simps) simp
    have "Inl e \<notin> set (map (scanPage expand B input) (take ?k jobs))"
      using promise_all_Inr[OF Inr] by auto
    then have "Inl e \<in> set (map (scanPage expand B input) (drop ?k jobs))"
      using 1(2) by (subst (asm) split) auto
    from 1(1)[OF ne Inr this]
    obtain es where "run_batches expand B clk opts input (drop ?k jobs)
                       (foldl (record_result clk) acc results) = Inl es" "es \<noteq> []"
      "set es \<subseteq> {e. Inl e \<in> set (map (scanPage expand B input) (drop ?k jobs))}"
      by blast
    moreover have "{e. Inl e \<in> set (map (scanPage expand B input) (drop ?k jobs))}
                   \<subseteq> {e. Inl e \<in> set (map (scanPage expand B input) jobs)}"
      by (auto dest: in_set_dropD)
    ultimately show ?thesis using r by auto
  qed
qed

lemma run_batches_Inr:
  assumes "run_batches expand B clk opts input jobs acc = Inr acc'"
  shows "\<exists>results. map (scanPage expand B input) jobs = map Inr results
           \<and> acc' = foldl (record_result clk) acc results"
proof (cases "promise_all (map (scanPage expand B input) jobs)")
  case (Inl es)
  from promise_all_Inl[OF Inl] have "es \<noteq> []"
    and s: "set es = {e. Inl e \<in> set (map (scanPage expand B input) jobs)}" by simp_all
  then obtain e where "e \<in> set es" by (cases es) auto
  then have "Inl e \<in> set (map (scanPage expand B input) jobs)" unfolding s by simp
  from run_batches_rejected[OF this, where clk = clk and opts = opts and acc = acc]
  obtain es' where "run_batches expand B clk opts input jobs acc = Inl es'" by blast
  then show ?thesis using assms by simp
next
  case (Inr results)
  have m: "map (scanPage expand B input) jobs = map Inr results"
    by (rule promise_all_Inr[OF Inr])
  from run_batches_fulfilled[OF m, where clk = clk and opts = opts and acc = acc] assms
  have "acc' = foldl (record_result clk) acc results" by simp
  then show ?thesis using m by blast
qed

text \<open>A run of one batch.\<close>

lemma run_batches_single:
  "length jobs \<le> batchSize opts \<Longrightarrow>
   run_batches expand B clk opts input jobs acc =
     (case promise_all (map (scanPage expand B input) jobs) of
        Inl es \<Rightarrow> Inl es
      | Inr results \<Rightarrow> Inr (foldl (record_result clk) acc results))"
proof (cases "jobs = []")
  case True
  then show ?thesis by (simp add: run_batches.simps)
next
  case False
  assume "length jobs \<le> batchSize opts"
  then have t: "take (batchSize opts) jobs = jobs" "drop (batchSize opts) jobs = []" by simp_all
  show ?thesis
    using False by (subst run_batches.simps) (simp add: t run_batches.simps split: sum.splits)
qed

lemma record_results_findings:
  "allFindings (foldl (record_result clk) acc rs)
     = allFindings acc @ concat (map findings (filter (\<lambda>r. or_else (error r) [] = []) rs))"
  by (induction rs arbitrary: acc) (auto simp: record_result_def Let_def)

lemma record_results_errors:
  "map (\<lambda>e. (err_pageUrl e, err_viewport e, err_error e)) (errors (foldl (record_result clk) acc rs))
     = map (\<lambda>e. (err_pageUrl e, err_viewport e, err_error e)) (errors acc)
       @ map (\<lambda>r. (job_url (job r), viewport_name (name (job_viewport (job r))), or_else (error r) []))
           (filter (\<lambda>r. or_else (error r) [] \<noteq> []) rs)"
  by (induction rs arbitrary: acc) (auto simp: record_result_def Let_def)

lemma record_results_completed:
  "completedJobs (foldl (record_result clk) acc rs) = completedJobs acc + length rs"
  by (induction rs arbitrary: acc) (auto simp: record_result_def Let_def)

lemma count_by_severity:
  "foldl (\<lambda>m f. m(severity f := Suc (m (severity f)))) m0 fs s
     = m0 s + length (filter (\<lambda>f. severity f = s) fs)"
  by (induction fs arbitrary: m0) auto

lemma concat_map_filter:
  "concat (map f (filter p xs)) = concat (map (\<lambda>x. if p x then f x else []) xs)"
  by (induction xs) auto

lemma map_filter_concat:
  "map f (filter p xs) = concat (map (\<lambda>x. if p x then [f x] else []) xs)"
  by (induction xs) auto

lemma first_throw_append:
  "first_throw (xs @ ys) = (case first_throw xs of Some m \<Rightarrow> Some m | None \<Rightarrow> first_throw ys)"
  by (induction xs rule: first_throw.induct) auto

lemma first_throw_append_right:
  "first_throw ys = first_throw zs \<Longrightarrow> first_throw (xs @ ys) = first_throw (xs @ zs)"
  by (cases "first_throw xs") (simp_all add: first_throw_append)

lemma first_throw_append_left:
  "first_throw xs = first_throw zs \<Longrightarrow> first_throw (xs @ ys) = first_throw (zs @ ys)"
  by (simp add: first_throw_append)

lemma first_throw_None: "first_throw xs = None \<longleftrightarrow> (\<forall>m. Throws m \<notin> set xs)"
  by (induction xs rule: first_throw.induct) auto

lemma run_steps_first_throw:
  "run_steps f xs = (case first_throw (map f xs) of None \<Rightarrow> Returns () | Some m \<Rightarrow> Throws m)"
proof (induction xs)
  case Nil
  then show ?case by simp
next
  case (Cons x xs)
  then show ?case by (cases "f x") auto
qed

lemma first_throw_run_steps:
  "first_throw (run_steps f xs # os) = first_throw (map f xs @ os)"
  by (cases "first_throw (map f xs)") (simp_all add: run_steps_first_throw first_throw_append)

text \<open>The \<open>try\<close> block of \<open>scanPage\<close> leaves the error and the findings that the spec
  gives for the job.\<close>

lemma prepare_page_first_throw:
  "prepare_page expand S input u = Returns () \<and>
     first_throw (job_steps expand S input u) = first_throw [void (captureFullPage S), void (analyze S)]
   \<or> (\<exists>m. prepare_page expand S input u = Throws m
          \<and> first_throw (job_steps expand S input u) = Some m)"
proof -
  let ?auth = "(case auth input of
        None \<Rightarrow> []
      | Some a \<Rightarrow>
          (case cookies a of None \<Rightarrow> [] | Some _ \<Rightarrow> [perform S AddCookies]) @
          (case headers a of None \<Rightarrow> [] | Some _ \<Rightarrow> [perform S SetExtraHTTPHeaders]) @
          map (executeLoginStep expand S)
            (case loginSteps a of None \<Rightarrow> [] | Some steps \<Rightarrow> steps))"
  let ?pre = "?auth @ [perform S (Goto u), waitForStability S] @
     map (executeInteraction S)
       (case interactionPlan input of None \<Rightarrow> [] | Some steps \<Rightarrow> steps)"
  have j: "job_steps expand S input u = ?pre @ [void (captureFullPage S), void (analyze S)]"
    by (simp add: job_steps_def)
  let ?auth' = "(case auth input of
           None \<Rightarrow> []
         | Some a \<Rightarrow>
             (case cookies a of None \<Rightarrow> [] | Some _ \<Rightarrow> [perform S AddCookies]) @
             (case headers a of None \<Rightarrow> [] | Some _ \<Rightarrow> [perform S SetExtraHTTPHeaders]) @
             [run_steps (executeLoginStep expand S)
                (case loginSteps a of None \<Rightarrow> [] | Some steps \<Rightarrow> steps)])"
  have r: "first_throw [run_steps f ys] = first_throw (map f ys)" for f :: "step \<Rightarrow> unit outcome" and ys
    using first_throw_run_steps[of f ys "[]"] by simp
  have a: "first_throw ?auth' = first_throw ?auth"
  proof (cases "auth input")
    case None
    then show ?thesis by simp
  next
    case (Some a)
    show ?thesis unfolding Some option.case
      by (intro first_throw_append_right r)
  qed
  have "first_throw
          (?auth' @
        [perform S (Goto u),
         waitForStability S,
         run_steps (executeInteraction S)
           (case interactionPlan input of None \<Rightarrow> [] | Some steps \<Rightarrow> steps)])
        = first_throw (?auth @
        [perform S (Goto u),
         waitForStability S,
         run_steps (executeInteraction S)
           (case interactionPlan input of None \<Rightarrow> [] | Some steps \<Rightarrow> steps)])"
    by (rule first_throw_append_left[OF a])
  also have "\<dots> = first_throw (?auth @ [perform S (Goto u), waitForStability S] @
        [run_steps (executeInteraction S)
           (case interactionPlan input of None \<Rightarrow> [] | Some steps \<Rightarrow> steps)])"
    by simp
  also have "\<dots> = first_throw ?pre"
    by (intro first_throw_append_right r)
  finally have "first_throw
          (?auth' @
        [perform S (Goto u),
         waitForStability S,
         run_steps (executeInteraction S)
           (case interactionPlan input of None \<Rightarrow> [] | Some steps \<Rightarrow> steps)])
        = first_throw ?pre" .
  then have p: "prepare_page expand S input u
             = (case first_throw ?pre of None \<Rightarrow> Returns () | Some m \<Rightarrow> Throws m)"
    unfolding prepare_page_def by (simp only: run_steps_first_throw list.map_id0 id_apply map_ident)
  define pre where "pre = ?pre"
  have j': "job_steps expand S input u = pre @ [void (captureFullPage S), void (analyze S)]"
    unfolding j pre_def by simp
  have p': "prepare_page expand S input u
             = (case first_throw pre of None \<Rightarrow> Returns () | Some m \<Rightarrow> Throws m)"
    unfolding p pre_def ..
  show ?thesis
  proof (cases "first_throw pre")
    case None
    then show ?thesis unfolding j' p' first_throw_append by simp
  next
    case (Some m)
    then show ?thesis unfolding j' p' first_throw_append by simp
  qed
qed

lemma try_block_spec:
  "fst (snd (try_block expand S input u)) = first_throw (job_steps expand S input u)
   \<and> fst (try_block expand S input u)
       = (case first_throw (job_steps expand S input u) of
            Some m \<Rightarrow> []
          | None \<Rightarrow>
              (case analyze S of
                 Returns (a11y, usab, specs) \<Rightarrow> attach_screenshots S 0 (a11y @ usab @ specs)
               | Throws m \<Rightarrow> []))"
  using prepare_page_first_throw[of expand S input u]
  by (cases "captureFullPage S"; cases "analyze S")
     (auto simp: try_block_def split: prod.splits)

lemma scanPage_ok:
  assumes "contexts_ok (B j)"
  shows "scanPage expand B input j =
           Inr \<lparr>job = j,
                findings = spec_job_findings expand B input j,
                error = spec_job_error expand B input j,
                pageScreenshotPath = snd (snd (try_block expand (B j) input (job_url j)))\<rparr>"
proof -
  obtain fs err shot where t: "try_block expand (B j) input (job_url j) = (fs, err, shot)"
    by (cases "try_block expand (B j) input (job_url j)")
  show ?thesis
    using assms try_block_spec[of expand "B j" input "job_url j"]
    by (simp add: scanPage_def contexts_ok_def Let_def spec_job_findings_def spec_job_error_def t)
qed

lemma contexts_ok_iff: "contexts_ok S \<longleftrightarrow> context_failure S = None"
  by (auto simp: contexts_ok_def context_failure_def split: outcome.splits)

lemma scanPage_context_failure:
  "scanPage expand B input j = Inl e \<longleftrightarrow> context_failure (B j) = Some e"
  by (auto simp: scanPage_def context_failure_def Let_def split: outcome.splits prod.splits)

text \<open>Durations of a run, also of one during which the clock was set back.\<close>

lemma formatDuration_examples:
  "formatDuration 62000 = ''1m 2s''" "formatDuration 59999 = ''59s''"
  "formatDuration (- 1000) = ''-1s''" "formatDuration (- 1) = ''-1s''"
  "formatDuration (- 61000) = ''-61s''"
  by code_simp+

lemmas example_scan_defs =
  scanPage_def try_block_def prepare_page_def example_browser_def example_session_def
  example_input_def example_scanner_options_def make_jobs_def Let_def

section \<open>Claims about the cluster engine\<close>

text \<open>
  Claim C8. Two findings with the same rule id \<open>r\<close> and the same viewport, whose first
  selectors differ only by \<open>:nth-child(2)\<close> against \<open>:nth-child(7)\<close> (around any common
  text \<open>pre\<close>, \<open>post\<close>), and whose page URLs parse to the same host and to paths that
  differ only in the numeric segment \<open>/12\<close> against \<open>/99\<close> (the spec's example is
  \<open>base = /product\<close>, \<open>rest\<close> empty), have the same signature, and
  \<open>deduplicateFindings\<close> turns the two into one cluster with \<open>occurrenceCount\<close> 2. This
  holds for every URL parser and every digest.
\<close>

theorem signature_merges_positional_variants:
  assumes rule: "ruleId f1 = Some r" "ruleId f2 = Some r" "r \<noteq> []"
    and vp: "viewport f1 = viewport f2"
    and sel: "selectors (evidence f1) = (pre @ '':nth-child(2)'' @ post) # more1"
             "selectors (evidence f2) = (pre @ '':nth-child(7)'' @ post) # more2"
    and url: "new_URL P (pageUrl f1) = Some u1" "new_URL P (pageUrl f2) = Some u2"
             "hostname u1 = hostname u2"
             "pathname u1 = base @ ''/12'' @ rest" "pathname u2 = base @ ''/99'' @ rest"
  shows "generateSignature P f1 = generateSignature P f2
         \<and> (\<exists>c. deduplicateFindings P [f1, f2] = [c] \<and> occurrenceCount c = 2)"
proof -
  have 1: "rule_key f1 = rule_key f2" using rule by (simp add: rule_key_def or_else_def)
  have "normalize_selector (pre @ '':nth-child(2)'' @ post)
        = normalize_selector (pre @ '':nth-child(7)'' @ post)"
    by (simp only: normalize_selector_def nth_child_2_7)
  then have 2: "normalizedSelector f1 = normalizedSelector f2"
    unfolding normalizedSelector_def first_def sel by (simp only: list.case option.map)
  have 3: "extractUrlPattern P (pageUrl f1) = extractUrlPattern P (pageUrl f2)"
    unfolding extractUrlPattern_def url option.case numeric_segment_12_99 ..
  have "generateSignature P f1 = generateSignature P f2"
    using 1 2 3 vp by (simp add: generateSignature_def signatureBase_def)
  then show ?thesis using dedup_pair[of P f1 f2] by blast
qed

text \<open>The spec's example: \<open>li:nth-child(2)\<close> on \<open>/product/12\<close> and \<open>li:nth-child(7)\<close> on
  \<open>/product/99\<close>.\<close>

theorem signature_merges_positional_variants_witness:
  "generateSignature example_platform
     (example_finding ''f1'' ''https://shop.example.com/product/12'' desktop
        [''ul > li:nth-child(2) > input''])
   = generateSignature example_platform
       (example_finding ''f2'' ''https://shop.example.com/product/99'' desktop
          [''ul > li:nth-child(7) > input''])
   \<and> (\<exists>c. deduplicateFindings example_platform
            [example_finding ''f1'' ''https://shop.example.com/product/12'' desktop
               [''ul > li:nth-child(2) > input''],
             example_finding ''f2'' ''https://shop.example.com/product/99'' desktop
               [''ul > li:nth-child(7) > input'']] = [c]
          \<and> occurrenceCount c = 2)"
proof (rule signature_merges_positional_variants[where r = "''label''" and pre = "''ul > li''"
        and post = "'' > input''" and ?more1.0 = "[]" and ?more2.0 = "[]" and base = "''/product''" and rest = "[]"
        and ?u1.0 = "\<lparr>href = ''https://shop.example.com/product/12'', protocol = ''https:'',
                         origin = ''https://shop.example.com'', hostname = ''shop.example.com'', pathname = ''/product/12'',
                         searchParams = []\<rparr>"
        and ?u2.0 = "\<lparr>href = ''https://shop.example.com/product/99'', protocol = ''https:'',
                         origin = ''https://shop.example.com'', hostname = ''shop.example.com'', pathname = ''/product/99'',
                         searchParams = []\<rparr>"])
qed (simp_all add: example_finding_def example_platform_def example_new_URL_def Let_def)

text \<open>
  Claim C10. \<open>generateSignature\<close> has no failing path: an empty selector list makes
  \<open>selectors[0]\<close> undefined, which the optional chain passes on to \<open>|| 'unknown'\<close>, and a
  URL that does not parse is used as it is; so the function is a total function of the
  finding, here the digest of the four joined parts. When the selector list is empty or
  its first selector normalises to the empty string, the selector part is \<open>unknown\<close>,
  and two such findings with equal rule key, viewport and URL pattern have the same
  signature and form one cluster of \<open>occurrenceCount\<close> 2.
\<close>

theorem signature_unknown_selector:
  assumes nosel1: "selectors (evidence f1) = [] \<or> normalize_selector (hd (selectors (evidence f1))) = []"
      and nosel2: "selectors (evidence f2) = [] \<or> normalize_selector (hd (selectors (evidence f2))) = []"
      and same: "rule_key f1 = rule_key f2" "viewport f1 = viewport f2"
         "extractUrlPattern P (pageUrl f1) = extractUrlPattern P (pageUrl f2)"
  shows "normalizedSelector f1 = ''unknown'' \<and> normalizedSelector f2 = ''unknown''
         \<and> generateSignature P f1
             = md5_hex P (join ''|'' [rule_key f1, ''unknown'', viewport_name (viewport f1),
                                     extractUrlPattern P (pageUrl f1)])
         \<and> generateSignature P f1 = generateSignature P f2
         \<and> (\<exists>c. deduplicateFindings P [f1, f2] = [c] \<and> occurrenceCount c = 2)"
proof -
  have n: "normalizedSelector f = ''unknown''"
    if "selectors (evidence f) = [] \<or> normalize_selector (hd (selectors (evidence f))) = []" for f :: Finding
    using that by (cases "selectors (evidence f)") (auto simp: normalizedSelector_def first_def or_else_def)
  have s1: "generateSignature P f1
             = md5_hex P (join ''|'' [rule_key f1, ''unknown'', viewport_name (viewport f1),
                                     extractUrlPattern P (pageUrl f1)])"
    using n[OF nosel1] by (simp add: generateSignature_def signatureBase_def)
  have "generateSignature P f1 = generateSignature P f2"
    using n[OF nosel1] n[OF nosel2] same by (simp add: generateSignature_def signatureBase_def)
  then show ?thesis using dedup_pair[of P f1 f2] n[OF nosel1] n[OF nosel2] s1 by blast
qed

text \<open>An empty selector list, and a selector that is nothing but a positional
  pseudo-class between spaces.\<close>

theorem signature_unknown_selector_witness:
  "normalizedSelector (example_finding ''f1'' ''https://shop.example.com/cart'' mobile []) = ''unknown''
   \<and> normalizedSelector (example_finding ''f2'' ''https://shop.example.com/cart'' mobile ['' :nth-child(3) '']) = ''unknown''
   \<and> generateSignature example_platform (example_finding ''f1'' ''https://shop.example.com/cart'' mobile [])
      = generateSignature example_platform (example_finding ''f2'' ''https://shop.example.com/cart'' mobile ['' :nth-child(3) ''])
   \<and> (\<exists>c. deduplicateFindings example_platform
             [example_finding ''f1'' ''https://shop.example.com/cart'' mobile [],
              example_finding ''f2'' ''https://shop.example.com/cart'' mobile ['' :nth-child(3) '']] = [c]
          \<and> occurrenceCount c = 2)"
proof -
  have a: "selectors (evidence (example_finding ''f1'' ''https://shop.example.com/cart'' mobile [])) = []
           \<or> normalize_selector (hd (selectors (evidence (example_finding ''f1'' ''https://shop.example.com/cart'' mobile [])))) = []"
    by (simp add: example_finding_def)
  have "normalize_selector '' :nth-child(3) '' = []" by code_simp
  then have b: "selectors (evidence (example_finding ''f2'' ''https://shop.example.com/cart'' mobile ['' :nth-child(3) ''])) = []
           \<or> normalize_selector (hd (selectors (evidence (example_finding ''f2'' ''https://shop.example.com/cart'' mobile ['' :nth-child(3) ''])))) = []"
    by (simp add: example_finding_def)
  have c: "rule_key (example_finding ''f1'' ''https://shop.example.com/cart'' mobile [])
           = rule_key (example_finding ''f2'' ''https://shop.example.com/cart'' mobile ['' :nth-child(3) ''])"
    "viewport (example_finding ''f1'' ''https://shop.example.com/cart'' mobile [])
           = viewport (example_finding ''f2'' ''https://shop.example.com/cart'' mobile ['' :nth-child(3) ''])"
    "extractUrlPattern example_platform (pageUrl (example_finding ''f1'' ''https://shop.example.com/cart'' mobile []))
           = extractUrlPattern example_platform (pageUrl (example_finding ''f2'' ''https://shop.example.com/cart'' mobile ['' :nth-child(3) '']))"
    by (simp_all add: example_finding_def rule_key_def)
  show ?thesis
    using signature_unknown_selector[OF a b c] by blast
qed

text \<open>
  Claim C9, as amended. For every input list, every cluster \<open>c\<close> of
  \<open>deduplicateFindings\<close> has as \<open>occurrenceCount\<close> the number of input findings with the
  cluster's signature, and as \<open>affectedPages\<close> the page URLs of those findings, each once,
  in order of first occurrence. So \<open>affectedPages\<close> is never longer than
  \<open>occurrenceCount\<close>, and it is strictly shorter exactly when one page URL recurs among
  the findings of that signature. The viewport name is a part of the signature string:
  when the digest keeps the signature strings of the input apart (no two different
  strings among them have the same MD5), the findings of one cluster that are on the same
  page are all in the same viewport. So a page that recurs across viewports gives
  separate clusters, and the recurrence that makes \<open>affectedPages\<close> shorter is recurrence
  within one viewport.
\<close>

theorem cluster_counts_and_pages:
  assumes "c \<in> set (deduplicateFindings P fs)"
  shows "occurrenceCount c
           = length (filter (\<lambda>f. generateSignature P f = generateSignature P c) fs)
       \<and> affectedPages c
           = uniq (map pageUrl (filter (\<lambda>f. generateSignature P f = generateSignature P c) fs))
       \<and> distinct (affectedPages c)
       \<and> set (affectedPages c)
           = set (map pageUrl (filter (\<lambda>f. generateSignature P f = generateSignature P c) fs))
       \<and> length (affectedPages c) \<le> occurrenceCount c
       \<and> (length (affectedPages c) < occurrenceCount c
            \<longleftrightarrow> \<not> distinct (map pageUrl
                    (filter (\<lambda>f. generateSignature P f = generateSignature P c) fs)))
       \<and> (inj_on (md5_hex P) (signatureBase P ` set fs)
            \<longrightarrow> (\<forall>f \<in> set fs. \<forall>g \<in> set fs.
                   generateSignature P f = generateSignature P c
                   \<and> generateSignature P g = generateSignature P c
                   \<and> pageUrl f = pageUrl g
                   \<longrightarrow> viewport f = viewport g))"
proof -
  have 1: "occurrenceCount c
           = length (filter (\<lambda>f. generateSignature P f = generateSignature P c) fs)
       \<and> affectedPages c
           = uniq (map pageUrl (filter (\<lambda>f. generateSignature P f = generateSignature P c) fs))
       \<and> distinct (affectedPages c)
       \<and> set (affectedPages c)
           = set (map pageUrl (filter (\<lambda>f. generateSignature P f = generateSignature P c) fs))
       \<and> length (affectedPages c) \<le> occurrenceCount c
       \<and> (length (affectedPages c) < occurrenceCount c
            \<longleftrightarrow> \<not> distinct (map pageUrl
                    (filter (\<lambda>f. generateSignature P f = generateSignature P c) fs)))"
    using cluster_members[OF assms]
      uniq_shorter[of "map pageUrl (filter (\<lambda>f. generateSignature P f = generateSignature P c) fs)"]
      uniq_length[of "map pageUrl (filter (\<lambda>f. generateSignature P f = generateSignature P c) fs)"]
    by (simp add: uniq_distinct uniq_set)
  have 2: "viewport f = viewport g"
    if inj: "inj_on (md5_hex P) (signatureBase P ` set fs)"
      and f: "f \<in> set fs" and g: "g \<in> set fs"
      and s: "generateSignature P f = generateSignature P c"
             "generateSignature P g = generateSignature P c"
      and p: "pageUrl f = pageUrl g" for f g
  proof -
    have "md5_hex P (signatureBase P f) = md5_hex P (signatureBase P g)"
      using s by (simp add: generateSignature_def)
    then have "signatureBase P f = signatureBase P g"
      using inj f g by (auto dest: inj_onD)
    then show ?thesis using p by (rule signatureBase_viewport)
  qed
  show ?thesis using 1 2 by blast
qed

text \<open>The same finding on the same page in the viewports desktop and mobile, under a
  digest that keeps the two signature strings apart: two clusters, one for each viewport,
  and neither has fewer pages than occurrences.\<close>

theorem cluster_across_viewports_counterexample:
  "map occurrenceCount (deduplicateFindings example_platform example_two_viewports) = [1, 1]
   \<and> map affectedPages (deduplicateFindings example_platform example_two_viewports)
       = [[''https://shop.example.com/cart''], [''https://shop.example.com/cart'']]
   \<and> map viewport (deduplicateFindings example_platform example_two_viewports)
       = [desktop, mobile]
   \<and> map pageUrl example_two_viewports
       = [''https://shop.example.com/cart'', ''https://shop.example.com/cart'']
   \<and> map viewport example_two_viewports = [desktop, mobile]"
  by code_simp

text \<open>Two list items of one page in one viewport: one cluster, two occurrences, one
  page.\<close>

theorem cluster_counts_and_pages_witness:
  "hd (deduplicateFindings example_platform example_same_page)
     \<in> set (deduplicateFindings example_platform example_same_page)
   \<and> occurrenceCount (hd (deduplicateFindings example_platform example_same_page)) = 2
   \<and> affectedPages (hd (deduplicateFindings example_platform example_same_page))
       = [''https://shop.example.com/cart'']
   \<and> length (affectedPages (hd (deduplicateFindings example_platform example_same_page)))
       < occurrenceCount (hd (deduplicateFindings example_platform example_same_page))
   \<and> \<not> distinct (map pageUrl (filter (\<lambda>f. generateSignature example_platform f
          = generateSignature example_platform
              (hd (deduplicateFindings example_platform example_same_page)))
        example_same_page))
   \<and> viewport (example_same_page ! 0) = viewport (example_same_page ! 1)"
proof -
  let ?c = "hd (deduplicateFindings example_platform example_same_page)"
  have m: "?c \<in> set (deduplicateFindings example_platform example_same_page)"
    by code_simp
  have e: "occurrenceCount ?c = 2"
     "affectedPages ?c = [''https://shop.example.com/cart'']"
    by code_simp+
  have lt: "length (affectedPages ?c) < occurrenceCount ?c"
    using e by simp
  note T = cluster_counts_and_pages[OF m]
  have nd: "\<not> distinct (map pageUrl (filter (\<lambda>f. generateSignature example_platform f
          = generateSignature example_platform ?c) example_same_page))"
    using T lt by blast
  have inj: "inj_on (md5_hex example_platform)
               (signatureBase example_platform ` set example_same_page)"
    by (simp add: example_platform_def)
  have mem: "example_same_page ! 0 \<in> set example_same_page"
    "example_same_page ! 1 \<in> set example_same_page"
    by (simp_all add: example_same_page_def)
  have sg: "generateSignature example_platform (example_same_page ! 0)
              = generateSignature example_platform ?c"
    "generateSignature example_platform (example_same_page ! 1)
              = generateSignature example_platform ?c"
    "pageUrl (example_same_page ! 0) = pageUrl (example_same_page ! 1)"
    by code_simp+
  have vp: "viewport (example_same_page ! 0) = viewport (example_same_page ! 1)"
    using T inj mem sg by blast
  show ?thesis using m e lt nd vp by blast
qed

section \<open>Claims about the BFS crawler\<close>

text \<open>
  Claim C6. For every seed and configuration (and every state the crawler instance is in
  when called), \<open>BfsCrawler.crawl\<close> returns at most \<open>maxPages\<close> URLs, and the order of
  discovery is breadth-first: a page discovered at a smaller depth stands before every
  page discovered at a greater depth, in particular all pages of depth \<open>d\<close> before any
  page of depth \<open>d + 1\<close>. The depth of a discovered page is the depth of its queue item,
  as reported to \<open>onPageVisited\<close>. The loop is a terminating function, so the call
  returns whenever \<open>new URL(startUrl)\<close> does not throw.
\<close>

theorem bfs_bounded_breadth_first:
  assumes "new_URL P startUrl = Some startParsed"
  shows "\<exists>st. crawl_run P W opts visited0 disallowed0 startUrl = Inr st
       \<and> BfsCrawler_crawl P W opts visited0 disallowed0 startUrl = Inr (discoveredUrls st)
       \<and> length (discoveredUrls st) \<le> maxPages opts
       \<and> map fst (visits st) = discoveredUrls st
       \<and> (\<forall>i j. i < length (visits st) \<and> j < length (visits st)
                 \<and> snd (visits st ! i) < snd (visits st ! j) \<longrightarrow> i < j)"
proof -
  obtain st where run: "crawl_run P W opts visited0 disallowed0 startUrl = Inr st"
    using assms by (simp add: crawl_run_def)
  have inv: "bfs_inv st" and len: "length (discoveredUrls st) \<le> maxPages opts"
    using crawl_run_invariants[OF run] by auto
  have s: "sorted (map snd (visits st))" using inv by (simp add: bfs_inv_def sorted_append)
  have order: "i < j" if "i < length (visits st)" "j < length (visits st)"
       "snd (visits st ! i) < snd (visits st ! j)" for i j
  proof (rule ccontr)
    assume "\<not> i < j"
    then have "j \<le> i" by simp
    then have "map snd (visits st) ! j \<le> map snd (visits st) ! i"
      using s that(1) by (simp add: sorted_iff_nth_mono del: nth_map)
    then show False using that by simp
  qed
  have "BfsCrawler_crawl P W opts visited0 disallowed0 startUrl = Inr (discoveredUrls st)"
    using run by (simp add: BfsCrawler_crawl_def)
  moreover have "map fst (visits st) = discoveredUrls st"
    using inv by (simp add: bfs_inv_def)
  ultimately show ?thesis using run len order by blast
qed

text \<open>The example site with \<open>maxPages\<close> 2: the crawl stops after the start page and the
  first page of depth 1.\<close>

theorem bfs_bounded_breadth_first_witness:
  "crawl_run example_platform example_site (example_bfs_options\<lparr>maxPages := 2\<rparr>) [] []
     ''https://example.com/'' = Inr example_bfs_final2
   \<and> BfsCrawler_crawl example_platform example_site (example_bfs_options\<lparr>maxPages := 2\<rparr>)
       [] [] ''https://example.com/''
     = Inr [''https://example.com/'', ''https://example.com/b'']
   \<and> length (discoveredUrls example_bfs_final2) \<le> 2
   \<and> map snd (visits example_bfs_final2) = [0, 1]"
proof -
  have p: "new_URL example_platform ''https://example.com/''
           = Some \<lparr>href = ''https://example.com/'', protocol = ''https:'',
                    origin = ''https://example.com'', hostname = ''example.com'',
                    pathname = ''/'', searchParams = []\<rparr>"
    by code_simp
  have r: "crawl_run example_platform example_site (example_bfs_options\<lparr>maxPages := 2\<rparr>)
             [] [] ''https://example.com/'' = Inr example_bfs_final2"
    by code_simp
  from bfs_bounded_breadth_first[OF p, of example_site "example_bfs_options\<lparr>maxPages := 2\<rparr>"
         "[]" "[]"]
  obtain st where
    a: "crawl_run example_platform example_site (example_bfs_options\<lparr>maxPages := 2\<rparr>) [] []
       ''https://example.com/'' = Inr st"
    and b: "BfsCrawler_crawl example_platform example_site
       (example_bfs_options\<lparr>maxPages := 2\<rparr>) [] [] ''https://example.com/''
       = Inr (discoveredUrls st)"
    and c: "length (discoveredUrls st) \<le> maxPages (example_bfs_options\<lparr>maxPages := 2\<rparr>)"
    by blast
  have e: "st = example_bfs_final2" using a r by simp
  show ?thesis using r b c unfolding e by (simp add: example_bfs_final2_def)
qed

text \<open>
  Claim C3, as amended. During one BFS crawl every URL (under normalisation) is recorded
  as discovered at most once, and never when it was in the visited set at the start. The
  membership test against the visited set is made at both ends of the queue: an item
  taken from the queue whose normalised URL is visited is discarded, and a link is
  appended to the queue only if its normalised URL is not visited at that moment. The
  test is against the visited set, not against the queue, so a URL that is not yet visited
  can be queued several times (the counterexample below). Only an iteration that discovers
  a page appends to the queue, and at most \<open>maxPages\<close> pages are discovered.
\<close>

theorem bfs_discovered_once:
  assumes "crawl_run P W opts visited0 disallowed0 startUrl = Inr st"
  shows "distinct (map (normalizeUrl P) (discoveredUrls st))
       \<and> set (map (normalizeUrl P) (discoveredUrls st)) \<inter> set visited0 = {}
       \<and> set (map (normalizeUrl P) (discoveredUrls st)) \<subseteq> set (visited st)
       \<and> (\<forall>s item rest d. queue s = item # rest \<and> normalizeUrl P (url item) \<in> set (visited s)
            \<longrightarrow> crawl_iteration P W opts d s = (False, s\<lparr>queue := rest\<rparr>))
       \<and> (\<forall>s d stop s'. queue s \<noteq> [] \<and> crawl_iteration P W opts d s = (stop, s')
            \<longrightarrow> (\<exists>new. queue s' = tl (queue s) @ new
                   \<and> (\<forall>x \<in> set new. normalizeUrl P (url x) \<notin> set (visited s'))
                   \<and> (new \<noteq> [] \<longrightarrow> length (discoveredUrls s') = Suc (length (discoveredUrls s)))))"
proof -
  have 1: "distinct (map (normalizeUrl P) (discoveredUrls st))
       \<and> set (map (normalizeUrl P) (discoveredUrls st)) \<inter> set visited0 = {}
       \<and> set (map (normalizeUrl P) (discoveredUrls st)) \<subseteq> set (visited st)"
    using crawl_run_invariants(3)[OF assms] by (simp add: once_inv_def)
  have 2: "crawl_iteration P W opts d s = (False, s\<lparr>queue := rest\<rparr>)"
    if "queue s = item # rest" "normalizeUrl P (url item) \<in> set (visited s)" for s item rest d
    using that by (simp add: crawl_iteration_def Let_def)
  have 3: "\<exists>new. queue s' = tl (queue s) @ new
                   \<and> (\<forall>x \<in> set new. normalizeUrl P (url x) \<notin> set (visited s'))
                   \<and> (new \<noteq> [] \<longrightarrow> length (discoveredUrls s') = Suc (length (discoveredUrls s)))"
    if ne: "queue s \<noteq> []" and it: "crawl_iteration P W opts d s = (stop, s')" for s d stop s'
  proof -
    obtain item rest where q: "queue s = item # rest" using ne by (cases "queue s") auto
    from crawl_iteration_cases[OF q it]
    show ?thesis
    proof (elim disjE conjE exE)
      assume "s' = s\<lparr>queue := rest\<rparr>"
      then show ?thesis using q by (intro exI[of _ "[]"]) simp
    next
      fix new
      assume "s' = s\<lparr>queue := rest @ new,
                         visited := visited s @ [normalizeUrl P (url item)],
                         discoveredUrls := discoveredUrls s @ [url item],
                         visits := visits s @ [(url item, depth item)]\<rparr>"
        "\<forall>x \<in> set new. depth x = depth item + 1
              \<and> normalizeUrl P (url x) \<notin> set (visited s @ [normalizeUrl P (url item)])"
      then show ?thesis using q by (intro exI[of _ new]) simp
    qed
  qed
  show ?thesis using 1 2 3 by blast
qed

text \<open>On the example site, the start page queues \<open>/b\<close> and \<open>/c\<close>; when \<open>/b\<close> is taken
  from the queue, \<open>/c\<close> is not yet visited and is queued again: after two iterations the
  queue holds \<open>/c\<close> twice.\<close>

theorem bfs_enqueued_twice_counterexample:
  "map url
     (queue (snd (crawl_iteration example_platform example_site example_bfs_options
                    ''example.com''
                    (snd (crawl_iteration example_platform example_site example_bfs_options
                            ''example.com'' example_bfs_start)))))
   = [''https://example.com/c'', ''https://example.com/c'']"
  by code_simp

theorem bfs_discovered_once_witness:
  "crawl_run example_platform example_site example_bfs_options [] [] ''https://example.com/''
     = Inr example_bfs_final
   \<and> distinct (map (normalizeUrl example_platform) (discoveredUrls example_bfs_final))
   \<and> set (map (normalizeUrl example_platform) (discoveredUrls example_bfs_final))
       \<subseteq> set (visited example_bfs_final)"
proof -
  have r: "crawl_run example_platform example_site example_bfs_options [] []
             ''https://example.com/'' = Inr example_bfs_final"
    by code_simp
  show ?thesis
    using bfs_discovered_once[OF r] r by blast
qed

section \<open>Claims about sitemap discovery\<close>

text \<open>
  Claim C7, as amended. For every sitemap or sitemap index and every \<open>maxUrls = N\<close> with
  \<open>N\<close> at least 1, what \<open>discover\<close> returns has at most \<open>N\<close> URLs and no URL twice; and
  unless it is the fallback \<open>[baseUrl]\<close>, which is returned as it is, every URL in it
  passed the allow-domain filter (when that list is not empty) and matches no deny
  pattern, where a pattern that does not compile is tested as a substring. The loop over
  the child sitemaps of an index stops as soon as \<open>maxUrls\<close> URLs are collected, so an
  index yields at most \<open>N\<close> entries. With \<open>maxUrls = 0\<close> nothing is truncated (the
  counterexample below): the code reads the option by its truthiness.
\<close>

theorem sitemap_discovery_bounded:
  assumes "0 < maxUrls opts" and "discover n P N opts baseUrl = Some (Inr us)"
  shows "length us \<le> maxUrls opts \<and> distinct us
       \<and> (us = [baseUrl]
           \<or> ((allowDomains opts \<noteq> [] \<longrightarrow> (\<forall>u \<in> set us. url_allowed P opts u))
               \<and> (\<forall>u \<in> set us. \<forall>p \<in> set (denyPatterns opts).
                     \<not> (case RegExp_test P p u of Some b \<Rightarrow> b | None \<Rightarrow> str_includes u p))))
       \<and> (\<forall>k content result sitemaps urls.
             parseString P content = Some result \<and> sitemapindex result = Some sitemaps
             \<and> urlset result = None \<and> parseSitemap k P N opts content = Some urls
             \<longrightarrow> length urls \<le> maxUrls opts)"
proof -
  from discover_result[OF assms(2)]
  consider "us = [baseUrl]" | "us = []" | urls where "us = filterUrls P opts urls" by blast
  then have 1: "length us \<le> maxUrls opts \<and> distinct us
       \<and> (us = [baseUrl]
           \<or> ((allowDomains opts \<noteq> [] \<longrightarrow> (\<forall>u \<in> set us. url_allowed P opts u))
               \<and> (\<forall>u \<in> set us. \<not> url_denied P opts u)))"
  proof cases
    case 1
    then show ?thesis using assms(1) by simp
  next
    case 2
    then show ?thesis by simp
  next
    case 3
    then show ?thesis
      using filterUrls_length[OF assms(1)] filterUrls_distinct filterUrls_allowed
        filterUrls_not_denied by blast
  qed
  have 2: "length urls \<le> maxUrls opts"
    if "parseString P content = Some result" "sitemapindex result = Some sitemaps"
       "urlset result = None" "parseSitemap k P N opts content = Some urls"
    for k content result sitemaps urls
    using parse_index_bound[OF that] assms(1) by (simp add: maxUrls_or_100_def)
  show ?thesis using 1 2 unfolding url_denied_def pattern_matches_def by blast
qed

text \<open>A sitemap of three URLs with \<open>maxUrls = 2\<close>.\<close>

theorem sitemap_discovery_bounded_witness:
  "discover 4 example_platform example_network example_sitemap_options ''https://example.com''
     = Some (Inr [''https://example.com/a'', ''https://example.com/b''])
   \<and> length [''https://example.com/a'', ''https://example.com/b'']
       \<le> maxUrls example_sitemap_options
   \<and> distinct [''https://example.com/a'', ''https://example.com/b'']"
proof -
  have p: "0 < maxUrls example_sitemap_options" by (simp add: example_sitemap_options_def)
  have r: "discover 4 example_platform example_network example_sitemap_options
             ''https://example.com''
           = Some (Inr [''https://example.com/a'', ''https://example.com/b''])"
    by code_simp
  show ?thesis using sitemap_discovery_bounded[OF p r] r by blast
qed

text \<open>The same sitemap with \<open>maxUrls = 0\<close>: all three URLs are returned.\<close>

theorem sitemap_unlimited_counterexample:
  "discover 4 example_platform example_network (example_sitemap_options\<lparr>maxUrls := 0\<rparr>)
     ''https://example.com''
   = Some (Inr [''https://example.com/a'', ''https://example.com/b'', ''https://example.com/c''])"
  by code_simp

text \<open>
  Claim C5, as amended. A fetch follows every 301 or 302 response that has a \<open>Location\<close>
  header, one after the other, without a limit on their number. When the chain ends, any
  response whose status is not 200, and a request that times out (the request is made
  with a timeout of 10 seconds), make the fetch fail; \<open>crawl\<close> turns that failure into
  the empty list, the loop of \<open>discover\<close> goes on to the next candidate location, and
  when robots.txt cannot be fetched either, \<open>discover\<close> returns the base URL.
\<close>

theorem fetch_redirects_and_fallback:
  "(\<forall>n N u statusCode l body.
      protocol_get N u = Response statusCode (Some l) body
      \<and> (statusCode = 301 \<or> statusCode = 302) \<and> l \<noteq> []
      \<longrightarrow> fetchUrl (Suc n) N u = fetchUrl n N l)
   \<and> (\<forall>n N u statusCode l body.
      protocol_get N u = Response statusCode l body \<and> statusCode \<noteq> 200
      \<and> \<not> ((statusCode = 301 \<or> statusCode = 302) \<and> or_else l [] \<noteq> [])
      \<longrightarrow> fetchUrl (Suc n) N u = Some (Inl (HttpStatus statusCode)))
   \<and> (\<forall>n N u. protocol_get N u = RequestTimeout
      \<longrightarrow> fetchUrl (Suc n) N u = Some (Inl RequestTimedOut))
   \<and> (\<forall>n P N opts u e. fetchUrl n N u = Some (Inl e)
      \<longrightarrow> SitemapCrawler_crawl (Suc n) P N opts u = Some [])
   \<and> (\<forall>n P N opts org l ls e. fetchUrl n N (org @ l) = Some (Inl e)
      \<longrightarrow> try_locations (Suc n) P N opts org (l # ls) = try_locations (Suc n) P N opts org ls)
   \<and> (\<forall>n P N opts baseUrl parsedBase e.
        new_URL P baseUrl = Some parsedBase
        \<and> try_locations n P N opts (origin parsedBase) commonLocations = Some None
        \<and> fetchUrl n N (origin parsedBase @ ''/robots.txt'') = Some (Inl e)
      \<longrightarrow> discover n P N opts baseUrl = Some (Inr [baseUrl]))"
proof (intro conjI allI impI, goal_cases)
  case (1 n N u statusCode l body)
  then show ?case by (auto simp: or_else_def)
next
  case (2 n N u statusCode l body)
  then show ?case by auto
next
  case (3 n N u)
  then show ?case by simp
next
  case (4 n P N opts u e)
  then show ?case by simp
next
  case (5 n P N opts org l ls e)
  then show ?case by simp
next
  case (6 n P N opts baseUrl parsedBase e)
  then show ?case by (simp add: discover_def)
qed

text \<open>Two redirects in a row are followed.\<close>

theorem fetch_two_redirects_counterexample:
  "fetchUrl 3 example_network ''https://example.com/sitemap.xml'' = Some (Inr example_urlset)
   \<and> protocol_get example_network ''https://example.com/sitemap.xml''
       = Response 301 (Some ''https://www.example.com/sitemap.xml'') (Some [])
   \<and> protocol_get example_network ''https://www.example.com/sitemap.xml''
       = Response 302 (Some ''https://www.example.com/sitemaps/main.xml'') (Some [])
   \<and> protocol_get example_network ''https://www.example.com/sitemaps/main.xml''
       = Response 200 None (Some example_urlset)"
  by code_simp

text \<open>A redirect followed, a timeout that makes \<open>crawl\<close> return nothing, and discovery
  going on to the next location, where it finds the sitemap.\<close>

theorem fetch_redirects_and_fallback_witness:
  "fetchUrl (Suc 2) example_network ''https://example.com/sitemap.xml''
     = fetchUrl 2 example_network ''https://www.example.com/sitemap.xml''
   \<and> fetchUrl (Suc 2) example_network_timeout ''https://example.com/sitemap.xml''
       = Some (Inl RequestTimedOut)
   \<and> SitemapCrawler_crawl (Suc (Suc 2)) example_platform example_network_timeout
        example_sitemap_options ''https://example.com/sitemap.xml'' = Some []
   \<and> try_locations (Suc (Suc 2)) example_platform example_network_timeout
        example_sitemap_options ''https://example.com'' (''/sitemap.xml'' # tl commonLocations)
       = try_locations (Suc (Suc 2)) example_platform example_network_timeout
           example_sitemap_options ''https://example.com'' (tl commonLocations)
   \<and> discover 4 example_platform example_network_timeout example_sitemap_options
        ''https://example.com''
       = Some (Inr [''https://example.com/a'', ''https://example.com/b''])"
proof -
  have g1: "protocol_get example_network ''https://example.com/sitemap.xml''
       = Response 301 (Some ''https://www.example.com/sitemap.xml'') (Some [])
       \<and> ((301::nat) = 301 \<or> (301::nat) = 302) \<and> ''https://www.example.com/sitemap.xml'' \<noteq> []"
    by code_simp
  have g3: "protocol_get example_network_timeout ''https://example.com/sitemap.xml''
            = RequestTimeout"
    by code_simp
  note T = fetch_redirects_and_fallback
  note T1 = T[THEN conjunct1, rule_format]
  note T3 = T[THEN conjunct2, THEN conjunct2, THEN conjunct1, rule_format]
  note T4 = T[THEN conjunct2, THEN conjunct2, THEN conjunct2, THEN conjunct1, rule_format]
  note T5 = T[THEN conjunct2, THEN conjunct2, THEN conjunct2, THEN conjunct2, THEN conjunct1,
              rule_format]
  have 1: "fetchUrl (Suc 2) example_network ''https://example.com/sitemap.xml''
     = fetchUrl 2 example_network ''https://www.example.com/sitemap.xml''"
    by (rule T1[OF g1])
  have 2: "fetchUrl (Suc 2) example_network_timeout ''https://example.com/sitemap.xml''
       = Some (Inl RequestTimedOut)"
    by (rule T3[OF g3])
  have 3: "SitemapCrawler_crawl (Suc (Suc 2)) example_platform example_network_timeout
             example_sitemap_options ''https://example.com/sitemap.xml'' = Some []"
    by (rule T4[OF 2])
  have two: "fetchUrl (Suc 2) example_network_timeout (''https://example.com'' @ ''/sitemap.xml'')
       = Some (Inl RequestTimedOut)"
    using 2 by simp
  have 4: "try_locations (Suc (Suc 2)) example_platform example_network_timeout
             example_sitemap_options ''https://example.com'' (''/sitemap.xml'' # tl commonLocations)
       = try_locations (Suc (Suc 2)) example_platform example_network_timeout
           example_sitemap_options ''https://example.com'' (tl commonLocations)"
    by (rule T5[OF two])
  have 5: "discover 4 example_platform example_network_timeout example_sitemap_options
        ''https://example.com''
       = Some (Inr [''https://example.com/a'', ''https://example.com/b''])"
    by code_simp
  show ?thesis by (intro conjI 1 2 3 4 5)
qed

text \<open>
  Claim C1 (the code differs from it). When every common location fails and robots.txt
  names a sitemap, \<open>discover\<close> returns whatever \<open>crawl\<close> makes of that sitemap, also the
  empty list: the test \<open>urls.length > 0\<close> of the loop over the common locations is
  missing on this path, so the code never reaches its fallback to the base URL. And a
  base URL that \<open>new URL\<close> rejects makes \<open>discover\<close> throw, since that call stands
  outside every \<open>try\<close>.
\<close>

theorem discover_empty_robots_sitemap:
  "discover 4 example_platform example_network_robots example_sitemap_options
     ''https://example.com'' = Some (Inr [])
   \<and> discover 4 example_platform example_network_robots example_sitemap_options
     ''example.com'' = Some (Inl InvalidBaseUrl)"
  by code_simp

section \<open>Claims about the scheduler\<close>

text \<open>
  Claim C2, as amended. Take any list of jobs and any batch size. A job fails when one of
  the steps that \<open>scanPage\<close> awaits inside its \<open>try\<close> throws: authentication, navigation,
  the wait for stability, the interaction plan, the full-page screenshot, the analyzers.
  When for every job the context and the page can be created and the context can be
  closed, the loop over the batches returns; it has handled every job; the raw finding
  list is the concatenation, in job order, of the findings of the jobs that do not fail;
  and the error list holds, in job order, one entry with URL, viewport name and message
  for every job that fails with a message that is not empty. A failing job has no
  findings. When for some job the context or the page cannot be created, or the context
  cannot be closed, that failure is not caught: \<open>scanPage\<close> rejects, and the loop ends
  with the exception of such a job (the counterexample below).
\<close>

theorem failing_job_is_isolated:
  "((\<forall>j \<in> set jobs. contexts_ok (B j)) \<longrightarrow>
      (\<exists>acc. run_batches expand B clk opts input jobs
                \<lparr>allFindings = [], errors = [], completedJobs = 0\<rparr> = Inr acc
            \<and> completedJobs acc = length jobs
            \<and> allFindings acc = concat (map (spec_job_findings expand B input) jobs)
            \<and> map error_key (errors acc) = concat (map (spec_job_errors expand B input) jobs)))
   \<and> ((\<exists>j \<in> set jobs. \<not> contexts_ok (B j)) \<longrightarrow>
      (\<exists>es. run_batches expand B clk opts input jobs
               \<lparr>allFindings = [], errors = [], completedJobs = 0\<rparr> = Inl es
           \<and> es \<noteq> []
           \<and> (\<forall>e \<in> set es. \<exists>j \<in> set jobs. context_failure (B j) = Some e)))
   \<and> (\<forall>j m. perform (B j) (Goto (job_url j)) = Throws m \<or> waitForStability (B j) = Throws m
            \<or> captureFullPage (B j) = Throws m \<or> analyze (B j) = Throws m
          \<longrightarrow> spec_job_error expand B input j \<noteq> None \<and> spec_job_findings expand B input j = [])
   \<and> (\<forall>j m. auth input = None \<and> perform (B j) (Goto (job_url j)) = Throws m
          \<longrightarrow> spec_job_error expand B input j = Some m)
   \<and> (\<forall>j m. newContext (B j) = Throws m
            \<or> newContext (B j) = Returns () \<and> newPage (B j) = Throws m
            \<or> newContext (B j) = Returns () \<and> newPage (B j) = Returns ()
               \<and> closeContext (B j) = Throws m
          \<longrightarrow> context_failure (B j) = Some m \<and> scanPage expand B input j = Inl m)"
proof -
  let ?init = "\<lparr>allFindings = [], errors = [], completedJobs = 0\<rparr>"
  let ?res = "\<lambda>j. \<lparr>job = j,
                findings = spec_job_findings expand B input j,
                error = spec_job_error expand B input j,
                pageScreenshotPath = snd (snd (try_block expand (B j) input (job_url j)))\<rparr>"
  have 1: "\<exists>acc. run_batches expand B clk opts input jobs ?init = Inr acc
            \<and> completedJobs acc = length jobs
            \<and> allFindings acc = concat (map (spec_job_findings expand B input) jobs)
            \<and> map error_key (errors acc) = concat (map (spec_job_errors expand B input) jobs)"
    if ctx: "\<forall>j \<in> set jobs. contexts_ok (B j)"
  proof -
    let ?acc = "foldl (record_result clk) ?init (map ?res jobs)"
    have "map (scanPage expand B input) jobs = map Inr (map ?res jobs)"
      using ctx by (simp add: scanPage_ok)
    then have run: "run_batches expand B clk opts input jobs ?init = Inr ?acc"
      by (rule run_batches_fulfilled)
    have c: "completedJobs ?acc = length jobs" by (simp add: record_results_completed)
    have f1: "(if or_else (error (?res j)) [] = [] then findings (?res j) else [])
              = spec_job_findings expand B input j" for j
      by (cases "spec_job_error expand B input j")
         (auto simp: spec_job_findings_def or_else_def)
    have f: "allFindings ?acc = concat (map (spec_job_findings expand B input) jobs)"
      unfolding record_results_findings concat_map_filter using f1
      by (simp add: comp_def cong: map_cong)
    have e1: "(if or_else (error (?res j)) [] \<noteq> []
               then [(job_url (job (?res j)), viewport_name (name (job_viewport (job (?res j)))),
                      or_else (error (?res j)) [])] else [])
              = spec_job_errors expand B input j" for j
      by (cases "spec_job_error expand B input j")
         (auto simp: spec_job_errors_def or_else_def)
    have "map error_key (errors ?acc)
          = map (\<lambda>r. (job_url (job r), viewport_name (name (job_viewport (job r))), or_else (error r) []))
             (filter (\<lambda>r. or_else (error r) [] \<noteq> []) (map ?res jobs))"
      using record_results_errors[of clk ?init "map ?res jobs"]
      by (simp add: error_key_def[abs_def])
    then have e: "map error_key (errors ?acc)
                  = concat (map (spec_job_errors expand B input) jobs)"
      unfolding map_filter_concat using e1
      by (simp add: comp_def cong: map_cong)
    show ?thesis using run c f e by blast
  qed
  have 2: "\<exists>es. run_batches expand B clk opts input jobs ?init = Inl es \<and> es \<noteq> []
           \<and> (\<forall>e \<in> set es. \<exists>j \<in> set jobs. context_failure (B j) = Some e)"
    if bad: "\<exists>j \<in> set jobs. \<not> contexts_ok (B j)"
  proof -
    obtain j e where j: "j \<in> set jobs" and e: "context_failure (B j) = Some e"
      using bad by (auto simp: contexts_ok_iff)
    then have "Inl e \<in> set (map (scanPage expand B input) jobs)"
      using scanPage_context_failure[of expand B input j e] by force
    from run_batches_rejected[OF this, where clk = clk and opts = opts and acc = ?init]
    obtain es where r: "run_batches expand B clk opts input jobs ?init = Inl es" "es \<noteq> []"
      and s: "set es \<subseteq> {e. Inl e \<in> set (map (scanPage expand B input) jobs)}"
      by blast
    have "\<exists>j \<in> set jobs. context_failure (B j) = Some e" if "e \<in> set es" for e
    proof -
      from s that obtain j where "j \<in> set jobs" "scanPage expand B input j = Inl e" by auto
      then show ?thesis using scanPage_context_failure[of expand B input j e] by blast
    qed
    then show ?thesis using r by blast
  qed
  have mem: "perform (B j) (Goto (job_url j)) \<in> set (job_steps expand (B j) input (job_url j))"
    "waitForStability (B j) \<in> set (job_steps expand (B j) input (job_url j))"
    "void (captureFullPage (B j)) \<in> set (job_steps expand (B j) input (job_url j))"
    "void (analyze (B j)) \<in> set (job_steps expand (B j) input (job_url j))" for j
    by (simp_all add: job_steps_def)
  have 3: "spec_job_error expand B input j \<noteq> None \<and> spec_job_findings expand B input j = []"
    if t: "perform (B j) (Goto (job_url j)) = Throws m \<or> waitForStability (B j) = Throws m
            \<or> captureFullPage (B j) = Throws m \<or> analyze (B j) = Throws m" for j m
  proof -
    have "Throws m \<in> set (job_steps expand (B j) input (job_url j))"
      using t mem[of j] by (metis void.simps(2))
    then have "spec_job_error expand B input j \<noteq> None"
      unfolding spec_job_error_def first_throw_None by blast
    then show ?thesis by (auto simp: spec_job_findings_def)
  qed
  have 4: "spec_job_error expand B input j = Some m"
    if "auth input = None \<and> perform (B j) (Goto (job_url j)) = Throws m" for j m
    using that by (simp add: spec_job_error_def job_steps_def)
  have 5: "context_failure (B j) = Some m \<and> scanPage expand B input j = Inl m"
    if "newContext (B j) = Throws m
            \<or> newContext (B j) = Returns () \<and> newPage (B j) = Throws m
            \<or> newContext (B j) = Returns () \<and> newPage (B j) = Returns ()
               \<and> closeContext (B j) = Throws m" for j m
  proof -
    have "context_failure (B j) = Some m" using that by (auto simp: context_failure_def)
    then show ?thesis using scanPage_context_failure[of expand B input j m] by simp
  qed
  show ?thesis
    apply (intro conjI impI allI)
    subgoal by (rule 1)
    subgoal by (rule 2)
    subgoal for j m using 3[of j m] by blast
    subgoal for j m using 3[of j m] by blast
    subgoal for j m using 4[of j m] by blast
    subgoal for j m using 5[of j m] by blast
    subgoal for j m using 5[of j m] by blast
    done
qed

text \<open>Two jobs in one batch, the navigation of the second being refused: the first
  completes with its finding, the second gives an error. Two jobs of which the second
  gets no page: the run ends with that exception. A job whose analyzers throw: it fails,
  without findings.\<close>

theorem failing_job_is_isolated_witness:
  "(\<exists>acc. run_batches id example_browser (now example_clock) example_scanner_options
            example_input example_jobs \<lparr>allFindings = [], errors = [], completedJobs = 0\<rparr>
          = Inr acc
        \<and> completedJobs acc = 2
        \<and> allFindings acc
            = [example_finding ''f1'' ''https://example.com/'' desktop [''form > input'']]
        \<and> map error_key (errors acc)
            = [(''https://example.com/down'', ''desktop'', ''net::ERR_CONNECTION_REFUSED'')])
   \<and> (\<exists>es. run_batches id example_browser (now example_clock) example_scanner_options
            example_input
            (make_jobs [''https://example.com/'', ''https://example.com/crash-page'']
               [VIEWPORT_PRESETS desktop])
            \<lparr>allFindings = [], errors = [], completedJobs = 0\<rparr>
          = Inl es
        \<and> set es = {''browserContext.newPage: Target closed''})
   \<and> spec_job_error id example_browser example_input
        \<lparr>job_url = ''https://example.com/broken'', job_viewport = VIEWPORT_PRESETS desktop\<rparr>
       \<noteq> None
   \<and> spec_job_findings id example_browser example_input
        \<lparr>job_url = ''https://example.com/broken'', job_viewport = VIEWPORT_PRESETS desktop\<rparr>
       = []"
proof -
  note T = failing_job_is_isolated[of _ example_browser id "now example_clock"
             example_scanner_options example_input]
  let ?crash = "make_jobs [''https://example.com/'', ''https://example.com/crash-page'']
               [VIEWPORT_PRESETS desktop]"
  let ?broken = "\<lparr>job_url = ''https://example.com/broken'',
                   job_viewport = VIEWPORT_PRESETS desktop\<rparr>"
  have ctx: "\<forall>j \<in> set example_jobs. contexts_ok (example_browser j)"
    by (simp add: example_jobs_def make_jobs_def contexts_ok_def example_browser_def
          example_session_def)
  have f: "concat (map (spec_job_findings id example_browser example_input) example_jobs)
           = [example_finding ''f1'' ''https://example.com/'' desktop [''form > input'']]"
    by (simp add: example_jobs_def spec_job_findings_def spec_job_error_def job_steps_def
          example_finding_def example_scan_defs)
  have e: "concat (map (spec_job_errors id example_browser example_input) example_jobs)
           = [(''https://example.com/down'', ''desktop'', ''net::ERR_CONNECTION_REFUSED'')]"
    by (simp add: example_jobs_def spec_job_errors_def spec_job_error_def job_steps_def
          example_scan_defs)
  have l: "length example_jobs = 2" by (simp add: example_jobs_def make_jobs_def)
  have 1: "\<exists>acc. run_batches id example_browser (now example_clock) example_scanner_options
            example_input example_jobs \<lparr>allFindings = [], errors = [], completedJobs = 0\<rparr>
          = Inr acc
        \<and> completedJobs acc = 2
        \<and> allFindings acc
            = [example_finding ''f1'' ''https://example.com/'' desktop [''form > input'']]
        \<and> map error_key (errors acc)
            = [(''https://example.com/down'', ''desktop'', ''net::ERR_CONNECTION_REFUSED'')]"
    using T[of example_jobs, THEN conjunct1, THEN mp, OF ctx] unfolding f e l .
  have bad: "\<exists>j \<in> set ?crash. \<not> contexts_ok (example_browser j)"
    by (simp add: make_jobs_def contexts_ok_def example_browser_def example_session_def)
  have only: "e = ''browserContext.newPage: Target closed''"
    if "\<exists>j \<in> set ?crash. context_failure (example_browser j) = Some e" for e
    using that
    by (auto simp: make_jobs_def context_failure_def example_browser_def example_session_def)
  from T[of ?crash, THEN conjunct2, THEN conjunct1, THEN mp, OF bad]
  obtain es where r: "run_batches id example_browser (now example_clock) example_scanner_options
            example_input ?crash \<lparr>allFindings = [], errors = [], completedJobs = 0\<rparr> = Inl es"
    and ne: "es \<noteq> []"
    and sub: "\<forall>e \<in> set es. \<exists>j \<in> set ?crash. context_failure (example_browser j) = Some e"
    by blast
  have "set es = {''browserContext.newPage: Target closed''}"
  proof -
    have s: "set es \<subseteq> {''browserContext.newPage: Target closed''}"
      using sub only by blast
    have n: "set es \<noteq> {}" using ne by simp
    show ?thesis using subset_singletonD[OF s] n by simp
  qed
  then have 2: "\<exists>es. run_batches id example_browser (now example_clock) example_scanner_options
            example_input ?crash \<lparr>allFindings = [], errors = [], completedJobs = 0\<rparr> = Inl es
        \<and> set es = {''browserContext.newPage: Target closed''}"
    using r by blast
  have a: "analyze (example_browser ?broken)
           = Throws ''page.evaluate: Execution context was destroyed''"
    by (simp add: example_browser_def example_session_def)
  have 3: "spec_job_error id example_browser example_input ?broken \<noteq> None
           \<and> spec_job_findings id example_browser example_input ?broken = []"
    using T[of "[]", THEN conjunct2, THEN conjunct2, THEN conjunct1, rule_format,
            of ?broken "''page.evaluate: Execution context was destroyed''"] a
    by blast
  show ?thesis using 1 2 3 by blast
qed

text \<open>Two jobs in one batch: no context can be created for the second, and the run ends
  with that exception although the first job completed. The same for a page that cannot
  be created and for a context that cannot be closed.\<close>

theorem context_failure_aborts_counterexample:
  "run_batches id example_browser (now example_clock) example_scanner_options example_input
     (make_jobs [''https://example.com/'', ''https://example.com/crash'']
        [VIEWPORT_PRESETS desktop])
     \<lparr>allFindings = [], errors = [], completedJobs = 0\<rparr>
   = Inl [''Target page, context or browser has been closed'']
   \<and> map_sum id (pagesScanned \<circ> summary)
       (scan example_platform id example_browser example_clock example_scanner_options
          example_input [''https://example.com/'', ''https://example.com/crash''])
     = Inl [''Target page, context or browser has been closed'']
   \<and> map_sum id (pagesScanned \<circ> summary)
       (scan example_platform id example_browser example_clock example_scanner_options
          example_input [''https://example.com/'', ''https://example.com/crash-page''])
     = Inl [''browserContext.newPage: Target closed'']
   \<and> map_sum id (pagesScanned \<circ> summary)
       (scan example_platform id example_browser example_clock example_scanner_options
          example_input [''https://example.com/'', ''https://example.com/crash-close''])
     = Inl [''browserContext.close: Connection closed'']"
  by (simp add: scan_def run_batches_single batchSize_def example_scan_defs)

text \<open>
  Claim C4, as amended. For every scan run that returns: the per-severity totals count
  the clusters built from the findings of the jobs that ended without an error message,
  so a job that ended in a \<open>ScanError\<close> adds to none of them, and every such job is in
  the summary's error list. \<open>pagesScanned\<close> is the number of discovered URLs, whether
  their jobs ended in error or not, and the duration is the difference of the clock
  readings at the end and at the start of the whole run.
\<close>

theorem summary_counters:
  assumes "scan P expand B clock opts input urls = Inr out"
  shows "pagesScanned (summary out) = length urls
       \<and> scanDuration (summary out) = formatDuration (end_ms clock - start_ms clock)
       \<and> (\<exists>results.
             map (scanPage expand B input)
               (make_jobs urls
                  (map VIEWPORT_PRESETS
                     (case viewports input of None \<Rightarrow> [desktop] | Some vs \<Rightarrow> vs)))
               = map Inr results
             \<and> out_allFindings out
                 = deduplicateFindings P
                     (concat (map findings (filter (\<lambda>r. or_else (error r) [] = []) results)))
             \<and> map error_key (summary_errors (summary out))
                 = map (\<lambda>r. (job_url (job r), viewport_name (name (job_viewport (job r))),
                              or_else (error r) []))
                     (filter (\<lambda>r. or_else (error r) [] \<noteq> []) results))
       \<and> (\<forall>s. findingsBySeverity (summary out) s
                 = length (filter (\<lambda>c. severity c = s) (out_allFindings out)))"
proof -
  let ?jobs = "make_jobs urls
                  (map VIEWPORT_PRESETS
                     (case viewports input of None \<Rightarrow> [desktop] | Some vs \<Rightarrow> vs))"
  let ?init = "\<lparr>allFindings = [], errors = [], completedJobs = 0\<rparr>"
  obtain acc where run: "run_batches expand B (now clock) opts input ?jobs ?init = Inr acc"
    using assms by (auto simp: scan_def Let_def split: sum.splits)
  from run_batches_Inr[OF run]
  obtain results where m: "map (scanPage expand B input) ?jobs = map Inr results"
    and acc: "acc = foldl (record_result (now clock)) ?init results"
    by blast
  have out: "out = \<lparr>summary =
                        buildSummary (length urls)
                          (formatDuration (end_ms clock - start_ms clock))
                          (toISOString clock (start_ms clock))
                          (toISOString clock (end_ms clock))
                          (deduplicateFindings P (allFindings acc))
                          (map (\<lambda>v. viewport_name (name v)) (map VIEWPORT_PRESETS
                     (case viewports input of None \<Rightarrow> [desktop] | Some vs \<Rightarrow> vs)))
                          (errors acc),
                      topFindings = getTopFindings (deduplicateFindings P (allFindings acc)) 10,
                      out_allFindings = deduplicateFindings P (allFindings acc)\<rparr>"
    using assms run by (simp add: scan_def Let_def)
  have a: "allFindings acc
           = concat (map findings (filter (\<lambda>r. or_else (error r) [] = []) results))"
    unfolding acc record_results_findings by simp
  have e: "map error_key (errors acc)
                 = map (\<lambda>r. (job_url (job r), viewport_name (name (job_viewport (job r))),
                              or_else (error r) []))
                     (filter (\<lambda>r. or_else (error r) [] \<noteq> []) results)"
    unfolding acc using record_results_errors[of "now clock" ?init results]
    by (simp add: error_key_def[abs_def])
  show ?thesis
    unfolding out using m a e
    by (auto simp: buildSummary_def count_by_severity)
qed

text \<open>A run over two pages, one of which fails to load: both are counted.\<close>

theorem summary_counters_witness:
  "\<exists>out. scan example_platform id example_browser example_clock example_scanner_options
            example_input [''https://example.com/'', ''https://example.com/down''] = Inr out
        \<and> pagesScanned (summary out) = 2
        \<and> scanDuration (summary out) = ''1m 2s''"
proof -
  have "\<exists>out. scan example_platform id example_browser example_clock example_scanner_options
            example_input [''https://example.com/'', ''https://example.com/down''] = Inr out"
    by (simp add: scan_def run_batches_single batchSize_def example_scan_defs)
  then obtain out where o: "scan example_platform id example_browser example_clock
            example_scanner_options example_input
            [''https://example.com/'', ''https://example.com/down''] = Inr out"
    by blast
  have d: "formatDuration (end_ms example_clock - start_ms example_clock) = ''1m 2s''"
    by code_simp
  from summary_counters[OF o] o show ?thesis unfolding d by auto
qed

text \<open>A run whose only page fails to load: no finding, one error, and \<open>pagesScanned\<close>
  is 1.\<close>

theorem errored_page_counted_counterexample:
  "map_sum id (pagesScanned \<circ> summary)
     (scan example_platform id example_browser example_clock example_scanner_options
        example_input [''https://example.com/down'']) = Inr 1
   \<and> map_sum id (map err_pageUrl \<circ> summary_errors \<circ> summary)
       (scan example_platform id example_browser example_clock example_scanner_options
          example_input [''https://example.com/down'']) = Inr [''https://example.com/down'']
   \<and> map_sum id (length \<circ> out_allFindings)
       (scan example_platform id example_browser example_clock example_scanner_options
          example_input [''https://example.com/down'']) = Inr 0"
  by (simp add: scan_def run_batches_single batchSize_def example_scan_defs buildSummary_def
        record_result_def or_else_def deduplicateFindings_def group_by_signature_def
        List.map_filter_def sort_by_def)

end
